theory Spec2Isabelle
  imports Complex_Main "HOL-Library.Multiset"
begin

section \<open>Data model of the team-formation scheduler\<close>

text \<open>
  The development embeds \<^verbatim>\<open>src/utils/schedular.js\<close>. The file holds two versions of
  the scheduler; the one embedded is the transactional one (\<^verbatim>\<open>startScheduler\<close> and
  \<^verbatim>\<open>createTeamsForHackathon\<close> with a mongoose session, writing Team and TeamMember
  documents and closing the registration).

  Documents are records, collections are lists in insertion order, and an ObjectId
  is a natural number. The participants of a hackathon are kept populated, as the
  selector's \<^verbatim>\<open>populate\<close> delivers them.
\<close>

type_synonym objid = nat

record participant =
  p_id :: objid
  p_name :: string
  p_email :: string

record hackathon =
  h_id :: objid
  title :: string
  registrationDeadline :: int
  isActive :: bool
  status :: string
  teamsFormed :: bool
  maxTeamSize :: int
  problemStatements :: "string list"
  participants :: "participant list"

record team =
  t_id :: objid
  hackathonId :: objid
  name :: string
  problemStatement :: string
  submissionStatus :: string

record team_member =
  teamId :: objid
  userId :: objid
  role :: string
  m_status :: string

record store =
  hackathons :: "hackathon list"
  teams :: "team list"
  team_members :: "team_member list"

record populated_team =
  pt_team :: team
  pt_members :: "team_member list"

record notification =
  n_email :: string
  n_name :: string
  n_hackathonTitle :: string
  n_teammates :: "string list"
  n_problemStatement :: string
  n_teamName :: string

datatype error = StoreError nat

datatype log =
    RunningScheduler
  | FoundHackathons nat
  | NoParticipants string
  | NoProblemStatements string
  | CreatedTeams nat string
  | ErrorCreatingTeams error
  | SchedulerError error

datatype event =
    Log log
  | EmailSend notification
  | Commit
  | Abort
  | Emit objid "populated_team list"

datatype outcome = Returned | Threw error

text \<open>
  What the code takes from outside: the value of the k-th call of
  \<^verbatim>\<open>Math.random()\<close>, the base-36 token \<^verbatim>\<open>r.toString(36).substring(2, 8).toUpperCase()\<close>
  of a number, and whether the k-th call to the store rejects.
\<close>

record env =
  math_random :: "nat \<Rightarrow> real"
  token :: "real \<Rightarrow> string"
  fails :: "nat \<Rightarrow> bool"

text \<open>
  The mutable world: the committed store, the number of \<^verbatim>\<open>Math.random()\<close> calls and
  store calls made so far, and the observable events in the order they happen.
\<close>

record world =
  db :: store
  rand_calls :: nat
  store_calls :: nat
  trace :: "event list"

section \<open>Library operations\<close>

text \<open>
  \<^verbatim>\<open>Math.floor(Math.random() * n)\<close> at the k-th call of \<^verbatim>\<open>Math.random()\<close>. The product is
  taken over the reals, where the code rounds it to a double; the index drawn can differ
  at some values of the random number. What follows uses only that the index is below
  \<open>n\<close>, never which index it is or how likely it is.
\<close>

definition random_index :: "env \<Rightarrow> nat \<Rightarrow> nat \<Rightarrow> nat" where
  "random_index e k n = nat \<lfloor>math_random e k * real n\<rfloor>"

text \<open>\<^verbatim>\<open>Math.random()\<close> returns a number in [0, 1).\<close>

definition unit_random :: "env \<Rightarrow> bool" where
  "unit_random e = (\<forall>k. 0 \<le> math_random e k \<and> math_random e k < 1)"

text \<open>\<^verbatim>\<open>Array.prototype.slice(start, end)\<close>, negative indices counting from the end.\<close>

definition slice :: "'a list \<Rightarrow> int \<Rightarrow> int \<Rightarrow> 'a list" where
  "slice xs start fin =
     (let len = int (length xs);
          k = (if start < 0 then max (len + start) 0 else min start len);
          final = (if fin < 0 then max (len + fin) 0 else min fin len)
      in take (nat (final - k)) (drop (nat k) xs))"

text \<open>
  A new ObjectId differs from every identifier the session can see; it is modelled
  as the successor of the largest one.
\<close>

definition new_ObjectId :: "store \<Rightarrow> objid" where
  "new_ObjectId s =
     Suc (fold max (map h_id (hackathons s) @ map t_id (teams s) @ map teamId (team_members s)) 0)"

section \<open>The eligibility selector\<close>

text \<open>The query of \<^verbatim>\<open>Hackathon.find\<close> in \<^verbatim>\<open>startScheduler\<close>.\<close>

definition eligible :: "int \<Rightarrow> hackathon \<Rightarrow> bool" where
  "eligible now h =
     (registrationDeadline h \<le> now \<and> now - 60000 \<le> registrationDeadline h \<and>
      isActive h \<and> status h = ''registration_open'' \<and> participants h \<noteq> [])"

definition find_hackathons :: "int \<Rightarrow> store \<Rightarrow> hackathon list" where
  "find_hackathons now s = filter (eligible now) (hackathons s)"

section \<open>Team formation for one hackathon\<close>

text \<open>
  The Fisher-Yates loop \<^verbatim>\<open>for (let i = length - 1; i > 0; i--)\<close>: \<open>k\<close> counts the
  calls of \<^verbatim>\<open>Math.random()\<close>, the destructuring assignment writes the old \<open>xs[j]\<close>
  to \<open>i\<close> and the old \<open>xs[i]\<close> to \<open>j\<close>.
\<close>

fun fisher_yates :: "env \<Rightarrow> nat \<Rightarrow> nat \<Rightarrow> 'a list \<Rightarrow> 'a list" where
  "fisher_yates e k 0 xs = xs"
| "fisher_yates e k (Suc i) xs =
     (let j = random_index e k (Suc i + 1)
      in fisher_yates e (Suc k) i (xs[Suc i := xs ! j, j := xs ! Suc i]))"

definition shuffledParticipants :: "env \<Rightarrow> nat \<Rightarrow> 'a list \<Rightarrow> 'a list" where
  "shuffledParticipants e k xs = fisher_yates e k (length xs - 1) xs"

text \<open>The TeamMember documents of one team: the member at index 0 is the leader.\<close>

definition member_rows :: "objid \<Rightarrow> participant list \<Rightarrow> team_member list" where
  "member_rows tid ms =
     map (\<lambda>(index, member).
            \<lparr>teamId = tid, userId = p_id member,
             role = (if index = 0 then ''leader'' else ''developer''),
             m_status = ''active''\<rparr>)
         (enumerate 0 ms)"

text \<open>The calls of \<^verbatim>\<open>sendTeamNotification\<close> for one team, made inside the loop.\<close>

definition notifications :: "hackathon \<Rightarrow> string \<Rightarrow> string \<Rightarrow> participant list \<Rightarrow> event list" where
  "notifications h teamName randomProblem ms =
     map (\<lambda>member.
            EmailSend \<lparr>n_email = p_email member, n_name = p_name member,
                       n_hackathonTitle = title h,
                       n_teammates = map p_name (filter (\<lambda>m. p_id m \<noteq> p_id member) ms),
                       n_problemStatement = randomProblem, n_teamName = teamName\<rparr>)
         ms"

text \<open>
  The inner loop over \<^verbatim>\<open>teamMembers.entries()\<close> with its \<^verbatim>\<open>Promise.all\<close>: every
  \<^verbatim>\<open>TeamMember.create\<close> is started (store calls \<open>k\<close>, \<open>k + 1\<close>, ...), the ones that
  do not reject write their document to the session, and the first rejection is the
  error of \<^verbatim>\<open>Promise.all\<close>.
\<close>

definition create_members :: "env \<Rightarrow> nat \<Rightarrow> team_member list \<Rightarrow> error option \<times> team_member list" where
  "create_members e k rows =
     (map_option StoreError (find (fails e) [k ..< k + length rows]),
      map snd (filter (\<lambda>(index, r). \<not> fails e (k + index)) (enumerate 0 rows)))"

text \<open>
  One iteration of \<^verbatim>\<open>for (let i = 0; i < shuffledParticipants.length; i += maxTeamSize)\<close>.
  The store calls are, in order: \<^verbatim>\<open>Team.create\<close>, one \<^verbatim>\<open>TeamMember.create\<close> per
  member, and \<^verbatim>\<open>Team.findById\<close> with its populate. All of them write to, or read
  from, the session. \<^verbatim>\<open>sendTeamNotification\<close> is called, once per member, at the end
  of the iteration.
\<close>

definition team_step ::
  "env \<Rightarrow> hackathon \<Rightarrow> participant list \<Rightarrow> int \<Rightarrow> store \<Rightarrow> populated_team list \<Rightarrow> world
     \<Rightarrow> error option \<times> store \<times> populated_team list \<times> world" where
  "team_step e h sp i sess createdTeams w =
     (let teamMembers = slice sp i (i + maxTeamSize h);
          randomProblem =
            problemStatements h ! random_index e (rand_calls w) (length (problemStatements h));
          teamName = ''Team-'' @ token e (math_random e (rand_calls w + 1));
          w1 = w\<lparr>rand_calls := rand_calls w + 2\<rparr>;
          k = store_calls w1
      in if fails e k then (Some (StoreError k), sess, createdTeams, w1\<lparr>store_calls := k + 1\<rparr>)
         else
           let tm = \<lparr>t_id = new_ObjectId sess, hackathonId = h_id h, name = teamName,
                     problemStatement = randomProblem, submissionStatus = ''not_submitted''\<rparr>;
               sess1 = sess\<lparr>teams := teams sess @ [tm]\<rparr>;
               n = length teamMembers;
               (failed, written) = create_members e (k + 1) (member_rows (t_id tm) teamMembers);
               sess2 = sess1\<lparr>team_members := team_members sess1 @ written\<rparr>;
               w2 = w1\<lparr>store_calls := k + 1 + n\<rparr>
           in case failed of
                Some err \<Rightarrow> (Some err, sess2, createdTeams, w2)
              | None \<Rightarrow>
                  if fails e (k + 1 + n)
                  then (Some (StoreError (k + 1 + n)), sess2, createdTeams,
                        w2\<lparr>store_calls := k + 2 + n\<rparr>)
                  else
                    let populatedTeam =
                          \<lparr>pt_team = tm,
                           pt_members = filter (\<lambda>m. teamId m = t_id tm) (team_members sess2)\<rparr>
                    in (None, sess2, createdTeams @ [populatedTeam],
                        w2\<lparr>store_calls := k + 2 + n,
                           trace := trace w2 @ notifications h teamName randomProblem teamMembers\<rparr>))"

text \<open>
  The loop itself. Nothing bounds it when \<^verbatim>\<open>maxTeamSize\<close> is not positive, so it is a
  partial function: \<open>None\<close> is the loop that never ends.
\<close>

partial_function (option) split_loop ::
  "env \<Rightarrow> hackathon \<Rightarrow> participant list \<Rightarrow> int \<Rightarrow> store \<Rightarrow> populated_team list \<Rightarrow> world
     \<Rightarrow> (error option \<times> store \<times> populated_team list \<times> world) option" where
  "split_loop e h sp i sess createdTeams w =
     (if i < int (length sp)
      then (case team_step e h sp i sess createdTeams w of
              (Some err, r) \<Rightarrow> Some (Some err, r)
            | (None, sess', createdTeams', w') \<Rightarrow>
                split_loop e h sp (i + maxTeamSize h) sess' createdTeams' w')
      else Some (None, sess, createdTeams, w))"

declare split_loop.simps [code]

text \<open>
  The \<^verbatim>\<open>catch\<close> block: \<^verbatim>\<open>abortTransaction\<close> (a store call, which may itself reject),
  the error log, and the rethrow.
\<close>

definition catch_block :: "env \<Rightarrow> error \<Rightarrow> world \<Rightarrow> outcome \<times> world" where
  "catch_block e err w =
     (let k = store_calls w; w1 = w\<lparr>store_calls := k + 1\<rparr>
      in if fails e k then (Threw (StoreError k), w1)
         else (Threw err, w1\<lparr>trace := trace w1 @ [Abort, Log (ErrorCreatingTeams err)]\<rparr>))"

text \<open>The two guards: log, abort the transaction, return.\<close>

definition skip_hackathon :: "env \<Rightarrow> log \<Rightarrow> world \<Rightarrow> outcome \<times> world" where
  "skip_hackathon e msg w =
     (let w0 = w\<lparr>trace := trace w @ [Log msg]\<rparr>;
          k = store_calls w0;
          w1 = w0\<lparr>store_calls := k + 1\<rparr>
      in if fails e k then catch_block e (StoreError k) w1
         else (Returned, w1\<lparr>trace := trace w1 @ [Abort]\<rparr>))"

text \<open>\<^verbatim>\<open>Hackathon.findByIdAndUpdate(_id, {$set: {status, teamsFormed}})\<close>: the first
  document with that identifier is updated, whatever its status.\<close>

fun findByIdAndUpdate :: "objid \<Rightarrow> hackathon list \<Rightarrow> hackathon list" where
  "findByIdAndUpdate i [] = []"
| "findByIdAndUpdate i (x # xs) =
     (if h_id x = i then x\<lparr>status := ''registration_closed'', teamsFormed := True\<rparr> # xs
      else x # findByIdAndUpdate i xs)"

text \<open>
  \<^verbatim>\<open>createTeamsForHackathon\<close>. The session starts outside the \<^verbatim>\<open>try\<close>; it sees the
  committed store and keeps its writes to itself until \<^verbatim>\<open>commitTransaction\<close>
  installs them. \<^verbatim>\<open>io.emit\<close> and \<^verbatim>\<open>Promise.allSettled\<close> do not throw.
\<close>

definition createTeamsForHackathon :: "env \<Rightarrow> hackathon \<Rightarrow> world \<Rightarrow> (outcome \<times> world) option" where
  "createTeamsForHackathon e h w =
     (let k0 = store_calls w; w0 = w\<lparr>store_calls := k0 + 1\<rparr>
      in if fails e k0 then Some (Threw (StoreError k0), w0)
         else if participants h = [] then Some (skip_hackathon e (NoParticipants (title h)) w0)
         else if problemStatements h = []
         then Some (skip_hackathon e (NoProblemStatements (title h)) w0)
         else
           let sp = shuffledParticipants e (rand_calls w0) (participants h);
               w1 = w0\<lparr>rand_calls := rand_calls w0 + (length (participants h) - 1)\<rparr>
           in case split_loop e h sp 0 (db w1) [] w1 of
                None \<Rightarrow> None
              | Some (Some err, sess, createdTeams, w2) \<Rightarrow> Some (catch_block e err w2)
              | Some (None, sess, createdTeams, w2) \<Rightarrow>
                  (let k = store_calls w2; w3 = w2\<lparr>store_calls := k + 1\<rparr>
                   in if fails e k then Some (catch_block e (StoreError k) w3)
                      else
                        let sess' = sess\<lparr>hackathons := findByIdAndUpdate (h_id h) (hackathons sess)\<rparr>;
                            w4 = w3\<lparr>store_calls := k + 2\<rparr>
                        in if fails e (k + 1) then Some (catch_block e (StoreError (k + 1)) w4)
                           else Some (Returned,
                                  w4\<lparr>db := sess',
                                     trace := trace w4 @
                                       [Commit, Emit (h_id h) createdTeams,
                                        Log (CreatedTeams (length createdTeams) (title h))]\<rparr>)))"

section \<open>One tick of the scheduler\<close>

text \<open>
  The \<^verbatim>\<open>for ... of\<close> loop of the cron callback: an error thrown for one hackathon
  leaves the loop.
\<close>

fun process_hackathons :: "env \<Rightarrow> hackathon list \<Rightarrow> world \<Rightarrow> (error option \<times> world) option" where
  "process_hackathons e [] w = Some (None, w)"
| "process_hackathons e (h # hs) w =
     (case createTeamsForHackathon e h w of
        None \<Rightarrow> None
      | Some (Threw err, w') \<Rightarrow> Some (Some err, w')
      | Some (Returned, w') \<Rightarrow> process_hackathons e hs w')"

text \<open>The cron callback at the instant \<open>now\<close> (milliseconds), with its \<^verbatim>\<open>try/catch\<close>.\<close>

definition tick :: "env \<Rightarrow> int \<Rightarrow> world \<Rightarrow> world option" where
  "tick e now w =
     (let w0 = w\<lparr>trace := trace w @ [Log RunningScheduler]\<rparr>;
          k = store_calls w0;
          w1 = w0\<lparr>store_calls := k + 1\<rparr>
      in if fails e k then Some (w1\<lparr>trace := trace w1 @ [Log (SchedulerError (StoreError k))]\<rparr>)
         else
           let hs = find_hackathons now (db w1);
               w2 = w1\<lparr>trace := trace w1 @ [Log (FoundHackathons (length hs))]\<rparr>
           in case process_hackathons e hs w2 of
                None \<Rightarrow> None
              | Some (None, w') \<Rightarrow> Some w'
              | Some (Some err, w') \<Rightarrow> Some (w'\<lparr>trace := trace w' @ [Log (SchedulerError err)]\<rparr>))"

section \<open>Observations and reference functions\<close>

text \<open>
  Greedy contiguous chunking as the specification words it: groups of \<open>s\<close> elements
  taken from the front, the last group holding what is left.
\<close>

function chunks :: "nat \<Rightarrow> 'a list \<Rightarrow> 'a list list" where
  "chunks s xs = (if s = 0 \<or> xs = [] then [] else take s xs # chunks s (drop s xs))"
  by pat_completeness auto
termination
  by (relation "measure (\<lambda>(s, xs). length xs)") auto

declare chunks.simps [simp del]

text \<open>The world in which the team loop starts: the session is open, the shuffle has drawn
  its random numbers.\<close>

definition after_shuffle :: "env \<Rightarrow> hackathon \<Rightarrow> world \<Rightarrow> world" where
  "after_shuffle e h w = w\<lparr>store_calls := store_calls w + 1,
       rand_calls := rand_calls w + (length (participants h) - 1)\<rparr>"

text \<open>The teams a run added to the committed store, and the TeamMember documents of a team.\<close>

definition new_teams :: "world \<Rightarrow> world \<Rightarrow> team list" where
  "new_teams w w' = drop (length (teams (db w))) (teams (db w'))"

definition memberships :: "store \<Rightarrow> team \<Rightarrow> team_member list" where
  "memberships s t = filter (\<lambda>m. teamId m = t_id t) (team_members s)"

text \<open>
  Two formation passes over the same hackathon document, one after the other, as two
  ticks that both selected the hackathon run them.
\<close>

definition formation_twice :: "env \<Rightarrow> hackathon \<Rightarrow> world \<Rightarrow> (outcome \<times> outcome \<times> world) option" where
  "formation_twice e h w =
     (case createTeamsForHackathon e h w of
        None \<Rightarrow> None
      | Some (out1, w1) \<Rightarrow>
          (case createTeamsForHackathon e h w1 of
             None \<Rightarrow> None
           | Some (out2, w2) \<Rightarrow> Some (out1, out2, w2)))"

section \<open>A concrete scheduler state\<close>

text \<open>
  Three participants, teams of at most two, one problem statement; a random source that
  always returns one half, and a store that never rejects.
\<close>

definition ex_user :: "objid \<Rightarrow> string \<Rightarrow> participant" where
  "ex_user n s = \<lparr>p_id = n, p_name = s, p_email = s @ ''@example.org''\<rparr>"

definition ex_hackathon :: hackathon where
  "ex_hackathon =
     \<lparr>h_id = 1, title = ''Hack'', registrationDeadline = 1000, isActive = True,
      status = ''registration_open'', teamsFormed = False, maxTeamSize = 2,
      problemStatements = [''P1''],
      participants = [ex_user 11 ''ann'', ex_user 12 ''bob'', ex_user 13 ''cy'']\<rparr>"

definition ex_env :: env where
  "ex_env = \<lparr>math_random = (\<lambda>k. 1 / 2), token = (\<lambda>r. ''X0''), fails = (\<lambda>k. False)\<rparr>"

definition ex_world :: world where
  "ex_world =
     \<lparr>db = \<lparr>hackathons = [ex_hackathon], teams = [], team_members = []\<rparr>,
      rand_calls = 0, store_calls = 0, trace = []\<rparr>"

definition ex_team :: "objid \<Rightarrow> team" where
  "ex_team n = \<lparr>t_id = n, hackathonId = 1, name = ''Team-X0'', problemStatement = ''P1'',
                 submissionStatus = ''not_submitted''\<rparr>"

definition ex_row :: "objid \<Rightarrow> objid \<Rightarrow> string \<Rightarrow> team_member" where
  "ex_row t u r = \<lparr>teamId = t, userId = u, role = r, m_status = ''active''\<rparr>"

definition ex_mail :: "string \<Rightarrow> string list \<Rightarrow> event" where
  "ex_mail s mates =
     EmailSend \<lparr>n_email = s @ ''@example.org'', n_name = s, n_hackathonTitle = ''Hack'',
                n_teammates = mates, n_problemStatement = ''P1'', n_teamName = ''Team-X0''\<rparr>"

definition ex_rows :: "team_member list" where
  "ex_rows = [ex_row 2 11 ''leader'', ex_row 2 13 ''developer'', ex_row 3 12 ''leader'']"

definition ex_committed :: world where
  "ex_committed =
     \<lparr>db = \<lparr>hackathons = [ex_hackathon\<lparr>status := ''registration_closed'', teamsFormed := True\<rparr>],
             teams = [ex_team 2, ex_team 3], team_members = ex_rows\<rparr>,
      rand_calls = 6, store_calls = 10,
      trace = [ex_mail ''ann'' [''cy''], ex_mail ''cy'' [''ann''], ex_mail ''bob'' [],
               Commit,
               Emit 1 [\<lparr>pt_team = ex_team 2, pt_members = take 2 ex_rows\<rparr>,
                       \<lparr>pt_team = ex_team 3, pt_members = drop 2 ex_rows\<rparr>],
               Log (CreatedTeams 2 ''Hack'')]\<rparr>"

definition ex_env_update_fails :: env where
  "ex_env_update_fails = ex_env\<lparr>fails := (\<lambda>k. k = 8)\<rparr>"

definition ex_aborted :: world where
  "ex_aborted =
     \<lparr>db = db ex_world, rand_calls = 6, store_calls = 10,
      trace = [ex_mail ''ann'' [''cy''], ex_mail ''cy'' [''ann''], ex_mail ''bob'' [],
               Abort, Log (ErrorCreatingTeams (StoreError 8))]\<rparr>"

text \<open>
  A hackathon without problem statements, a second eligible hackathon, a store holding two
  eligible hackathons, a store whose first \<^verbatim>\<open>Team.create\<close> of a tick rejects, and the worlds
  reached by a second pass after an aborted and after a committed one.
\<close>

definition ex_no_problems :: hackathon where
  "ex_no_problems = ex_hackathon\<lparr>h_id := 2, title := ''Jam'', problemStatements := []\<rparr>"

definition ex_second :: hackathon where
  "ex_second = ex_hackathon\<lparr>h_id := 2, title := ''Jam''\<rparr>"

definition ex_two :: world where
  "ex_two = ex_world\<lparr>db := \<lparr>hackathons = [ex_hackathon, ex_second], teams = [], team_members = []\<rparr>\<rparr>"

definition ex_env_create_fails :: env where
  "ex_env_create_fails = ex_env\<lparr>fails := (\<lambda>k. k = 2)\<rparr>"

definition ex_two_stopped :: world where
  "ex_two_stopped =
     \<lparr>db = db ex_two, rand_calls = 4, store_calls = 4,
      trace = [Log RunningScheduler, Log (FoundHackathons 2), Abort,
               Log (ErrorCreatingTeams (StoreError 2)), Log (SchedulerError (StoreError 2))]\<rparr>"

definition ex_retried :: world where
  "ex_retried =
     (case createTeamsForHackathon ex_env_update_fails ex_hackathon ex_aborted of
        Some (out, w') \<Rightarrow> w' | None \<Rightarrow> ex_aborted)"

definition ex_formed_again :: world where
  "ex_formed_again =
     (case createTeamsForHackathon ex_env ex_hackathon ex_committed of
        Some (out, w') \<Rightarrow> w' | None \<Rightarrow> ex_committed)"

lemmas ex_defs = ex_user_def ex_hackathon_def ex_env_def ex_world_def

lemmas ex_defs2 = ex_no_problems_def ex_second_def ex_two_def ex_env_create_fails_def ex_two_stopped_def

section \<open>Library facts\<close>

lemma random_index_less: "unit_random e \<Longrightarrow> 0 < n \<Longrightarrow> random_index e k n < n"
proof -
  assume u: "unit_random e" and n: "0 < n"
  have r: "0 \<le> math_random e k" "math_random e k < 1" using u by (auto simp: unit_random_def)
  have "math_random e k * real n < real n" using r n by simp
  then have "\<lfloor>math_random e k * real n\<rfloor> < int n" by (simp add: floor_less_iff)
  moreover have "0 \<le> \<lfloor>math_random e k * real n\<rfloor>" using r by simp
  ultimately show ?thesis unfolding random_index_def by linarith
qed

lemma slice_take_drop: "slice xs (int j) (int j + int s) = take s (drop j xs)"
  by (auto simp: slice_def Let_def min_def)

lemma fold_max_ge: "(m::nat) \<le> fold max xs m"
proof (induction xs arbitrary: m)
  case Nil then show ?case by simp
next
  case (Cons a xs)
  have "m \<le> max a m" by simp
  also have "\<dots> \<le> fold max xs (max a m)" by (rule Cons.IH)
  finally show ?case by simp
qed

lemma fold_max_mem: "(x::nat) \<in> set xs \<Longrightarrow> x \<le> fold max xs m"
proof (induction xs arbitrary: m)
  case Nil then show ?case by simp
next
  case (Cons a xs)
  then show ?case using fold_max_ge[of "max a m" xs] by auto
qed

lemma new_ObjectId_teams: "t \<in> set (teams s) \<Longrightarrow> t_id t < new_ObjectId s"
  unfolding new_ObjectId_def by (rule le_imp_less_Suc, rule fold_max_mem) auto

lemma new_ObjectId_members: "m \<in> set (team_members s) \<Longrightarrow> teamId m < new_ObjectId s"
  unfolding new_ObjectId_def by (rule le_imp_less_Suc, rule fold_max_mem) auto

lemma teamId_member_rows: "m \<in> set (member_rows tid g) \<Longrightarrow> teamId m = tid"
  by (auto simp: member_rows_def)

lemma length_member_rows: "length (member_rows tid g) = length g"
  by (simp add: member_rows_def)

lemma create_members_ok:
  assumes "create_members e k rows = (None, written)"
  shows "written = rows"
proof -
  from assms have f: "find (fails e) [k ..< k + length rows] = None"
    and w: "written = map snd (filter (\<lambda>(index, r). \<not> fails e (k + index)) (enumerate 0 rows))"
    by (auto simp: create_members_def)
  have "\<forall>x \<in> set (enumerate 0 rows). (\<lambda>(index, r). \<not> fails e (k + index)) x"
    using f by (auto simp: find_None_iff in_set_enumerate_eq)
  then have "filter (\<lambda>(index, r). \<not> fails e (k + index)) (enumerate 0 rows) = enumerate 0 rows"
    by (simp only: filter_True)
  then show ?thesis using w by simp
qed

lemma populate_old: "filter (\<lambda>m. teamId m = new_ObjectId sess) (team_members sess) = []"
  by (fastforce simp: filter_empty_conv dest: new_ObjectId_members)

lemma populate_new: "filter (\<lambda>m. teamId m = tid) (member_rows tid g) = member_rows tid g"
  by (rule filter_True) (auto simp: teamId_member_rows)

lemma team_step_db: "team_step e h sp i sess ct w = (r, sess', ct', w') \<Longrightarrow> db w' = db w"
  by (auto simp: team_step_def Let_def split: if_splits option.splits prod.splits)

lemma team_step_ok:
  assumes "team_step e h sp i sess ct w = (None, sess', ct', w')"
  shows "\<exists>tm. t_id tm = new_ObjectId sess \<and> hackathonId tm = h_id h \<and>
           sess' = sess\<lparr>teams := teams sess @ [tm],
                        team_members := team_members sess @
                          member_rows (t_id tm) (slice sp i (i + maxTeamSize h))\<rparr> \<and>
           ct' = ct @ [\<lparr>pt_team = tm, pt_members = member_rows (t_id tm) (slice sp i (i + maxTeamSize h))\<rparr>]"
proof -
  define g where "g = slice sp i (i + maxTeamSize h)"
  obtain failed written where
    cm: "create_members e (store_calls w + 1) (member_rows (new_ObjectId sess) g) = (failed, written)"
    by fastforce
  have nf: "\<not> fails e (store_calls w)"
    using assms by (auto simp: team_step_def Let_def split: if_splits)
  have fn: "failed = None"
    using assms nf cm by (auto simp: team_step_def Let_def g_def split: option.splits if_splits)
  have wr: "written = member_rows (new_ObjectId sess) g"
    using cm fn by (auto dest: create_members_ok)
  show ?thesis
    using assms nf cm fn wr
    by (auto simp: team_step_def Let_def g_def populate_old populate_new split: if_splits)
qed

section \<open>The team loop\<close>

lemma chunks_Nil [simp]: "chunks s [] = []"
  by (simp add: chunks.simps)

lemma chunks_step: "0 < s \<Longrightarrow> xs \<noteq> [] \<Longrightarrow> chunks s xs = take s xs # chunks s (drop s xs)"
  by (subst chunks.simps) simp

lemma new_ObjectId_mono:
  "new_ObjectId sess < new_ObjectId (sess\<lparr>teams := teams sess @ [tm], team_members := ms\<rparr>)"
  if "t_id tm = new_ObjectId sess"
proof -
  have "tm \<in> set (teams (sess\<lparr>teams := teams sess @ [tm], team_members := ms\<rparr>))" by simp
  from new_ObjectId_teams[OF this] that show ?thesis by simp
qed

lemma split_loop_gt:
  assumes "split_loop e h sp i sess ct w = Some y"
  shows "fst y = None \<and> i < int (length sp) \<longrightarrow> 1 \<le> maxTeamSize h"
proof (rule split_loop.raw_induct[where P = "\<lambda>e h sp i sess ct w y.
          fst y = None \<and> i < int (length sp) \<longrightarrow> 1 \<le> maxTeamSize h", OF _ assms])
  fix f :: "env \<Rightarrow> hackathon \<Rightarrow> participant list \<Rightarrow> int \<Rightarrow> store \<Rightarrow> populated_team list \<Rightarrow> world
     \<Rightarrow> (error option \<times> store \<times> populated_team list \<times> world) option"
  fix e h sp i sess ct w y
  assume ih: "\<And>e h sp i sess ct w y. f e h sp i sess ct w = Some y \<Longrightarrow>
          fst y = None \<and> i < int (length sp) \<longrightarrow> 1 \<le> maxTeamSize h"
  assume body: "(if i < int (length sp)
      then (case team_step e h sp i sess ct w of
              (None, sess', createdTeams', w') \<Rightarrow> f e h sp (i + maxTeamSize h) sess' createdTeams' w'
            | (Some err, r) \<Rightarrow> Some (Some err, r))
      else Some (None, sess, ct, w)) = Some y"
  show "fst y = None \<and> i < int (length sp) \<longrightarrow> 1 \<le> maxTeamSize h"
  proof (intro impI, elim conjE)
    assume n: "fst y = None" and lt: "i < int (length sp)"
    obtain r sess' ct' w' where st: "team_step e h sp i sess ct w = (r, sess', ct', w')"
      by (metis prod_cases4)
    from body lt st n have rn: "r = None" by (cases r) auto
    with body lt st have rec: "f e h sp (i + maxTeamSize h) sess' ct' w' = Some y" by simp
    from ih[OF rec] n have "i + maxTeamSize h < int (length sp) \<longrightarrow> 1 \<le> maxTeamSize h" by simp
    with lt show "1 \<le> maxTeamSize h" by linarith
  qed
qed

lemma split_loop_ok:
  assumes s: "maxTeamSize h = int s" "1 \<le> s"
  shows "split_loop e h sp (int j) sess ct w = Some (None, sess', ct', w') \<Longrightarrow>
     \<exists>ts. length ts = length (chunks s (drop j sp)) \<and>
          teams sess' = teams sess @ ts \<and> hackathons sess' = hackathons sess \<and>
          team_members sess' = team_members sess @
             concat (map2 member_rows (map t_id ts) (chunks s (drop j sp))) \<and>
          ct' = ct @ map2 (\<lambda>t g. \<lparr>pt_team = t, pt_members = member_rows (t_id t) g\<rparr>) ts (chunks s (drop j sp)) \<and>
          sorted_wrt (<) (map t_id ts) \<and>
          (\<forall>t\<in>set ts. new_ObjectId sess \<le> t_id t \<and> hackathonId t = h_id h) \<and> db w' = db w"
proof (induction "length sp - j" arbitrary: j sess ct w rule: less_induct)
  case less
  show ?case
  proof (cases "j < length sp")
    case False
    with less.prems have "sess' = sess" "ct' = ct" "w' = w"
      by (simp_all add: split_loop.simps)
    with False show ?thesis by simp
  next
    case True
    obtain r sess1 ct1 w1 where st: "team_step e h sp (int j) sess ct w = (r, sess1, ct1, w1)"
      by (metis prod_cases4)
    from less.prems True st have rn: "r = None"
      by (cases r) (auto simp: split_loop.simps)
    from less.prems True st rn s
    have rec: "split_loop e h sp (int (j + s)) sess1 ct1 w1 = Some (None, sess', ct', w')"
      by (simp add: split_loop.simps)
    define g where "g = take s (drop j sp)"
    from team_step_ok[OF st[unfolded rn]] s
    obtain tm where tm: "t_id tm = new_ObjectId sess" "hackathonId tm = h_id h"
      "sess1 = sess\<lparr>teams := teams sess @ [tm], team_members := team_members sess @ member_rows (t_id tm) g\<rparr>"
      "ct1 = ct @ [\<lparr>pt_team = tm, pt_members = member_rows (t_id tm) g\<rparr>]"
      by (auto simp: slice_take_drop g_def)
    have dbw: "db w1 = db w" using team_step_db[OF st] .
    have m: "length sp - (j + s) < length sp - j" using True s by simp
    from less.hyps[OF m rec]
    obtain ts where ts: "length ts = length (chunks s (drop (j + s) sp))"
      "teams sess' = teams sess1 @ ts" "hackathons sess' = hackathons sess1"
      "team_members sess' = team_members sess1 @
             concat (map2 member_rows (map t_id ts) (chunks s (drop (j + s) sp)))"
      "ct' = ct1 @ map2 (\<lambda>t g. \<lparr>pt_team = t, pt_members = member_rows (t_id t) g\<rparr>) ts (chunks s (drop (j + s) sp))"
      "sorted_wrt (<) (map t_id ts)"
      "\<forall>t\<in>set ts. new_ObjectId sess1 \<le> t_id t \<and> hackathonId t = h_id h" "db w' = db w1"
      by blast
    have ch: "chunks s (drop j sp) = g # chunks s (drop (j + s) sp)"
      using True s by (simp add: chunks_step g_def add.commute)
    have lt: "new_ObjectId sess < new_ObjectId sess1"
      unfolding tm(3) by (rule new_ObjectId_mono) (rule tm(1))
    have "length (tm # ts) = length (chunks s (drop j sp))" using ts(1) ch by simp
    moreover have "teams sess' = teams sess @ (tm # ts)" using ts(2) tm(3) by simp
    moreover have "hackathons sess' = hackathons sess" using ts(3) tm(3) by simp
    moreover have "team_members sess' = team_members sess @
             concat (map2 member_rows (map t_id (tm # ts)) (chunks s (drop j sp)))"
      using ts(4) tm(3) ch by simp
    moreover have "ct' = ct @ map2 (\<lambda>t g. \<lparr>pt_team = t, pt_members = member_rows (t_id t) g\<rparr>) (tm # ts) (chunks s (drop j sp))"
      using ts(5) tm(4) ch by simp
    moreover have "sorted_wrt (<) (map t_id (tm # ts))"
      using ts(6) ts(7) lt tm(1) by auto
    moreover have "\<forall>t\<in>set (tm # ts). new_ObjectId sess \<le> t_id t \<and> hackathonId t = h_id h"
      using ts(7) lt tm(1) tm(2) by auto
    moreover have "db w' = db w" using ts(8) dbw by simp
    ultimately show ?thesis by blast
  qed
qed

lemma split_loop_db:
  assumes "split_loop e h sp i sess ct w = Some y"
  shows "db (snd (snd (snd y))) = db w"
proof (rule split_loop.raw_induct[where P = "\<lambda>e h sp i sess ct w y. db (snd (snd (snd y))) = db w",
        OF _ assms])
  fix f :: "env \<Rightarrow> hackathon \<Rightarrow> participant list \<Rightarrow> int \<Rightarrow> store \<Rightarrow> populated_team list \<Rightarrow> world
     \<Rightarrow> (error option \<times> store \<times> populated_team list \<times> world) option"
  fix e h sp i sess ct w y
  assume ih: "\<And>e h sp i sess ct w y. f e h sp i sess ct w = Some y \<Longrightarrow> db (snd (snd (snd y))) = db w"
  assume body: "(if i < int (length sp)
      then (case team_step e h sp i sess ct w of
              (None, sess', createdTeams', w') \<Rightarrow> f e h sp (i + maxTeamSize h) sess' createdTeams' w'
            | (Some err, r) \<Rightarrow> Some (Some err, r))
      else Some (None, sess, ct, w)) = Some y"
  obtain r sess' ct' w' where st: "team_step e h sp i sess ct w = (r, sess', ct', w')"
    by (metis prod_cases4)
  have dbw: "db w' = db w" using team_step_db[OF st] .
  show "db (snd (snd (snd y))) = db w"
  proof (cases "i < int (length sp)")
    case False
    with body show ?thesis by auto
  next
    case True
    show ?thesis
    proof (cases r)
      case None
      with body True st have "f e h sp (i + maxTeamSize h) sess' ct' w' = Some y" by simp
      from ih[OF this] dbw show ?thesis by simp
    next
      case (Some err)
      with body True st dbw show ?thesis by auto
    qed
  qed
qed

lemma length_fisher_yates [simp]: "length (fisher_yates e k i xs) = length xs"
  by (induction i arbitrary: k xs) (simp_all add: Let_def)

lemma length_shuffledParticipants [simp]: "length (shuffledParticipants e k xs) = length xs"
  by (simp add: shuffledParticipants_def)

lemma catch_block_db: "catch_block e err w = (out, w') \<Longrightarrow> db w' = db w \<and> out \<noteq> Returned"
  by (auto simp: catch_block_def Let_def split: if_splits)

lemma skip_hackathon_db: "skip_hackathon e msg w = (out, w') \<Longrightarrow> db w' = db w"
  by (auto simp: skip_hackathon_def Let_def split: if_splits dest: catch_block_db)

lemma createTeams_unfold:
  assumes "\<not> fails e (store_calls w)" "participants h \<noteq> []" "problemStatements h \<noteq> []"
  shows "createTeamsForHackathon e h w =
    (case split_loop e h (shuffledParticipants e (rand_calls w) (participants h)) 0 (db w) []
            (after_shuffle e h w) of
       None \<Rightarrow> None
     | Some (Some err, sess, createdTeams, w2) \<Rightarrow> Some (catch_block e err w2)
     | Some (None, sess, createdTeams, w2) \<Rightarrow>
         (if fails e (store_calls w2)
          then Some (catch_block e (StoreError (store_calls w2)) (w2\<lparr>store_calls := store_calls w2 + 1\<rparr>))
          else if fails e (store_calls w2 + 1)
          then Some (catch_block e (StoreError (store_calls w2 + 1)) (w2\<lparr>store_calls := store_calls w2 + 2\<rparr>))
          else Some (Returned,
                 w2\<lparr>store_calls := store_calls w2 + 2,
                    db := sess\<lparr>hackathons := findByIdAndUpdate (h_id h) (hackathons sess)\<rparr>,
                    trace := trace w2 @
                       [Commit, Emit (h_id h) createdTeams,
                        Log (CreatedTeams (length createdTeams) (title h))]\<rparr>)))"
  using assms
  by (simp add: createTeamsForHackathon_def Let_def after_shuffle_def split: option.splits prod.splits)

lemma formation_db:
  assumes r: "createTeamsForHackathon e h w = Some (out, w')"
  shows "db w' = db w \<or>
     out = Returned \<and> participants h \<noteq> [] \<and> problemStatements h \<noteq> [] \<and>
     (\<exists>sess ct w2. split_loop e h (shuffledParticipants e (rand_calls w) (participants h)) 0 (db w) []
            (after_shuffle e h w) = Some (None, sess, ct, w2) \<and>
        db w' = sess\<lparr>hackathons := findByIdAndUpdate (h_id h) (hackathons sess)\<rparr>)"
proof (cases "fails e (store_calls w) \<or> participants h = [] \<or> problemStatements h = []")
  case True
  with r show ?thesis
    by (auto simp: createTeamsForHackathon_def Let_def split: if_splits dest: skip_hackathon_db)
next
  case False
  then have nf: "\<not> fails e (store_calls w)" "participants h \<noteq> []" "problemStatements h \<noteq> []"
    by auto
  let ?sp = "shuffledParticipants e (rand_calls w) (participants h)"
  note u = createTeams_unfold[OF nf]
  show ?thesis
  proof (cases "split_loop e h ?sp 0 (db w) [] (after_shuffle e h w)")
    case None
    with r u show ?thesis by simp
  next
    case (Some y)
    obtain er sess ct w2 where y: "y = (er, sess, ct, w2)" by (metis prod_cases4)
    from split_loop_db[OF Some] y have d: "db w2 = db w" by (simp add: after_shuffle_def)
    show ?thesis
    proof (cases er)
      case (Some err)
      with r u \<open>split_loop e h ?sp 0 (db w) [] (after_shuffle e h w) = Some y\<close> y d
      show ?thesis by (auto dest: catch_block_db)
    next
      case None
      with r u \<open>split_loop e h ?sp 0 (db w) [] (after_shuffle e h w) = Some y\<close> y d nf
      show ?thesis by (auto split: if_splits dest!: catch_block_db)
    qed
  qed
qed

section \<open>Chunking\<close>

lemma chunks_length: "0 < s \<Longrightarrow> length (chunks s xs) = (length xs + s - 1) div s"
proof (induction s xs rule: chunks.induct)
  case (1 s xs)
  show ?case
  proof (cases "xs = []")
    case True
    then show ?thesis using 1(2) by simp
  next
    case False
    have ih: "length (chunks s (drop s xs)) = (length (drop s xs) + s - 1) div s"
      using 1(1) False 1(2) by blast
    have c: "chunks s xs = take s xs # chunks s (drop s xs)"
      using 1(2) False by (rule chunks_step)
    have "(length xs + s - 1) div s = Suc ((length (drop s xs) + s - 1) div s)"
    proof (cases "s \<le> length xs")
      case True
      have "length xs + s - 1 = (length xs - s + s - 1) + s" using True 1(2) by linarith
      then have "(length xs + s - 1) div s = ((length xs - s + s - 1) + s) div s"
        by (rule arg_cong)
      also have "\<dots> = Suc ((length xs - s + s - 1) div s)"
        using 1(2) by (simp only: div_add_self2)
      finally show ?thesis by (simp only: length_drop)
    next
      case False
      obtain m where "length xs = Suc m" using \<open>xs \<noteq> []\<close> by (cases xs) auto
      with False have b: "s * 1 \<le> length xs + s - 1" "length xs + s - 1 < s * Suc 1"
        by simp_all
      have "(length xs + s - 1) div s = 1" using b by (rule div_nat_eqI)
      moreover have "(length (drop s xs) + s - 1) div s = 0" using False 1(2) by simp
      ultimately show ?thesis by simp
    qed
    with c ih show ?thesis by simp
  qed
qed

lemma chunks_concat: "0 < s \<Longrightarrow> concat (chunks s xs) = xs"
proof (induction s xs rule: chunks.induct)
  case (1 s xs)
  show ?case
  proof (cases "xs = []")
    case True then show ?thesis by simp
  next
    case False
    with 1 show ?thesis by (simp add: chunks_step)
  qed
qed

lemma chunks_nth:
  "0 < s \<Longrightarrow> k < length (chunks s xs) \<Longrightarrow> chunks s xs ! k = take s (drop (k * s) xs)"
proof (induction s xs arbitrary: k rule: chunks.induct)
  case (1 s xs)
  show ?case
  proof (cases "xs = []")
    case True with 1(3) show ?thesis by simp
  next
    case False
    then have c: "chunks s xs = take s xs # chunks s (drop s xs)" using 1(2) by (simp add: chunks_step)
    show ?thesis
    proof (cases k)
      case 0 then show ?thesis using c by simp
    next
      case (Suc k')
      with 1(3) c have "k' < length (chunks s (drop s xs))" by simp
      with 1(1)[of k'] False 1(2) have "chunks s (drop s xs) ! k' = take s (drop (k' * s) (drop s xs))"
        by simp
      with c Suc show ?thesis by (simp add: add.commute)
    qed
  qed
qed

lemma chunks_map: "map (map f) (chunks s xs) = chunks s (map f xs)"
proof (induction s xs rule: chunks.induct)
  case (1 s xs)
  show ?case
  proof (cases "s = 0 \<or> xs = []")
    case True then show ?thesis by (auto simp: chunks.simps)
  next
    case False
    with 1 show ?thesis by (simp add: chunks_step take_map drop_map)
  qed
qed

section \<open>The committed store\<close>

lemma teamId_concat_rows:
  "m \<in> set (concat (map2 member_rows ids gs)) \<Longrightarrow> teamId m \<in> set ids"
  by (auto dest!: teamId_member_rows set_zip_leftD)

lemma memberships_nth:
  assumes "distinct ids" "length ids = length gs" "k < length ids"
  shows "filter (\<lambda>m. teamId m = ids ! k) (concat (map2 member_rows ids gs)) = member_rows (ids ! k) (gs ! k)"
  using assms
proof (induction ids arbitrary: gs k)
  case Nil
  then show ?case by simp
next
  case (Cons a ids)
  then obtain g gs' where gs: "gs = g # gs'" by (cases gs) auto
  show ?case
  proof (cases k)
    case 0
    have "\<And>m. m \<in> set (concat (map2 member_rows ids gs')) \<Longrightarrow> teamId m \<noteq> a"
      using Cons.prems(1) teamId_concat_rows by fastforce
    then have "filter (\<lambda>m. teamId m = a) (concat (map2 member_rows ids gs')) = []"
      unfolding filter_empty_conv by blast
    then show ?thesis using 0 gs by (simp add: populate_new)
  next
    case (Suc k')
    with Cons.prems gs have k': "k' < length ids" and ne: "a \<noteq> ids ! k'" by auto
    have "filter (\<lambda>m. teamId m = ids ! k') (member_rows a g) = []"
      using ne by (auto simp: filter_empty_conv dest: teamId_member_rows)
    moreover have "filter (\<lambda>m. teamId m = ids ! k') (concat (map2 member_rows ids gs'))
        = member_rows (ids ! k') (gs' ! k')"
      using Cons.IH[of gs' k'] Cons.prems gs k' by simp
    ultimately show ?thesis using Suc gs by simp
  qed
qed

lemma formation_returned:
  assumes r: "createTeamsForHackathon e h w = Some (Returned, w')"
    and p: "participants h \<noteq> []" and q: "problemStatements h \<noteq> []"
  shows "\<exists>sess ct w2.
        split_loop e h (shuffledParticipants e (rand_calls w) (participants h)) 0 (db w) []
            (after_shuffle e h w) = Some (None, sess, ct, w2) \<and>
        db w' = sess\<lparr>hackathons := findByIdAndUpdate (h_id h) (hackathons sess)\<rparr> \<and>
        trace w' = trace w2 @ [Commit, Emit (h_id h) ct, Log (CreatedTeams (length ct) (title h))]"
proof -
  have nf: "\<not> fails e (store_calls w)"
    using r by (auto simp: createTeamsForHackathon_def Let_def)
  let ?sp = "shuffledParticipants e (rand_calls w) (participants h)"
  note u = createTeams_unfold[OF nf p q]
  show ?thesis
  proof (cases "split_loop e h ?sp 0 (db w) [] (after_shuffle e h w)")
    case None
    with r u show ?thesis by simp
  next
    case (Some y)
    obtain er sess ct w2 where y: "y = (er, sess, ct, w2)" by (metis prod_cases4)
    show ?thesis
    proof (cases er)
      case (Some err)
      with r u \<open>split_loop e h ?sp 0 (db w) [] (after_shuffle e h w) = Some y\<close> y
      show ?thesis by (auto dest: catch_block_db)
    next
      case None
      with r u \<open>split_loop e h ?sp 0 (db w) [] (after_shuffle e h w) = Some y\<close> y
      show ?thesis by (auto split: if_splits dest!: catch_block_db)
    qed
  qed
qed

lemma formation_store:
  assumes r: "createTeamsForHackathon e h w = Some (Returned, w')"
    and p: "participants h \<noteq> []" and q: "problemStatements h \<noteq> []"
  shows "\<exists>ts. 1 \<le> maxTeamSize h \<and>
     length ts = length (chunks (nat (maxTeamSize h)) (shuffledParticipants e (rand_calls w) (participants h))) \<and>
     hackathons (db w') = findByIdAndUpdate (h_id h) (hackathons (db w)) \<and>
     teams (db w') = teams (db w) @ ts \<and>
     team_members (db w') = team_members (db w) @
        concat (map2 member_rows (map t_id ts)
           (chunks (nat (maxTeamSize h)) (shuffledParticipants e (rand_calls w) (participants h)))) \<and>
     sorted_wrt (<) (map t_id ts) \<and>
     (\<forall>t\<in>set ts. new_ObjectId (db w) \<le> t_id t \<and> hackathonId t = h_id h)"
proof -
  let ?sp = "shuffledParticipants e (rand_calls w) (participants h)"
  from formation_returned[OF r p q] obtain sess ct w2 where
    l: "split_loop e h ?sp 0 (db w) [] (after_shuffle e h w) = Some (None, sess, ct, w2)"
    and d: "db w' = sess\<lparr>hackathons := findByIdAndUpdate (h_id h) (hackathons sess)\<rparr>"
    by blast
  have "0 < int (length ?sp)" using p by simp
  with split_loop_gt[OF l] have s1: "1 \<le> maxTeamSize h" by simp
  then have s: "maxTeamSize h = int (nat (maxTeamSize h))" "1 \<le> nat (maxTeamSize h)" by simp_all
  from l have l': "split_loop e h ?sp (int 0) (db w) [] (after_shuffle e h w) = Some (None, sess, ct, w2)"
    by simp
  from split_loop_ok[OF s l'] obtain ts where
    "length ts = length (chunks (nat (maxTeamSize h)) ?sp)"
    "teams sess = teams (db w) @ ts" "hackathons sess = hackathons (db w)"
    "team_members sess = team_members (db w) @
             concat (map2 member_rows (map t_id ts) (chunks (nat (maxTeamSize h)) ?sp))"
    "sorted_wrt (<) (map t_id ts)"
    "\<forall>t\<in>set ts. new_ObjectId (db w) \<le> t_id t \<and> hackathonId t = h_id h"
    by auto
  with d s1 show ?thesis by auto
qed

lemma formation_memberships:
  assumes r: "createTeamsForHackathon e h w = Some (Returned, w')"
    and p: "participants h \<noteq> []" and q: "problemStatements h \<noteq> []"
  shows "1 \<le> maxTeamSize h \<and>
     length (new_teams w w') = length (chunks (nat (maxTeamSize h)) (shuffledParticipants e (rand_calls w) (participants h))) \<and>
     (\<forall>k < length (new_teams w w').
        memberships (db w') (new_teams w w' ! k) =
          member_rows (t_id (new_teams w w' ! k))
            (chunks (nat (maxTeamSize h)) (shuffledParticipants e (rand_calls w) (participants h)) ! k))"
proof -
  let ?gs = "chunks (nat (maxTeamSize h)) (shuffledParticipants e (rand_calls w) (participants h))"
  from formation_store[OF r p q] obtain ts where
    s1: "1 \<le> maxTeamSize h" and len: "length ts = length ?gs"
    and t: "teams (db w') = teams (db w) @ ts"
    and m: "team_members (db w') = team_members (db w) @ concat (map2 member_rows (map t_id ts) ?gs)"
    and so: "sorted_wrt (<) (map t_id ts)"
    and fr: "\<forall>t\<in>set ts. new_ObjectId (db w) \<le> t_id t \<and> hackathonId t = h_id h"
    by blast
  have nt: "new_teams w w' = ts" using t by (simp add: new_teams_def)
  have di: "distinct (map t_id ts)" using so by (simp add: strict_sorted_iff)
  have "memberships (db w') (ts ! k) = member_rows (t_id (ts ! k)) (?gs ! k)" if k: "k < length ts" for k
  proof -
    have "new_ObjectId (db w) \<le> t_id (ts ! k)" using fr k by simp
    then have old: "filter (\<lambda>m. teamId m = t_id (ts ! k)) (team_members (db w)) = []"
      by (fastforce simp: filter_empty_conv dest: new_ObjectId_members)
    have "filter (\<lambda>m. teamId m = map t_id ts ! k) (concat (map2 member_rows (map t_id ts) ?gs))
        = member_rows (map t_id ts ! k) (?gs ! k)"
      using di len k by (intro memberships_nth) simp_all
    with old m k show ?thesis by (simp add: memberships_def)
  qed
  with s1 len nt show ?thesis by simp
qed

lemma split_loop_total:
  assumes s: "maxTeamSize h = int s" "1 \<le> s"
  shows "\<exists>y. split_loop e h sp (int j) sess ct w = Some y \<and> ((\<forall>k. \<not> fails e k) \<longrightarrow> fst y = None)"
proof (induction "length sp - j" arbitrary: j sess ct w rule: less_induct)
  case less
  show ?case
  proof (cases "j < length sp")
    case False
    then show ?thesis by (simp add: split_loop.simps)
  next
    case True
    obtain r sess1 ct1 w1 where st: "team_step e h sp (int j) sess ct w = (r, sess1, ct1, w1)"
      by (metis prod_cases4)
    show ?thesis
    proof (cases r)
      case (Some err)
      have "\<exists>k. fails e k"
        using st Some by (auto simp: team_step_def create_members_def Let_def find_Some_iff
            split: if_splits option.splits prod.splits)
      with True st Some show ?thesis by (simp add: split_loop.simps)
    next
      case None
      have m: "length sp - (j + s) < length sp - j" using True s by simp
      from less[OF m, of sess1 ct1 w1] True st None s show ?thesis
        by (simp add: split_loop.simps)
    qed
  qed
qed

lemma formation_total:
  assumes "1 \<le> maxTeamSize h"
  shows "\<exists>out w'. createTeamsForHackathon e h w = Some (out, w') \<and> ((\<forall>k. \<not> fails e k) \<longrightarrow> out = Returned)"
proof (cases "fails e (store_calls w) \<or> participants h = [] \<or> problemStatements h = []")
  case True
  then show ?thesis
    by (auto simp: createTeamsForHackathon_def Let_def skip_hackathon_def catch_block_def)
next
  case False
  then have nf: "\<not> fails e (store_calls w)" "participants h \<noteq> []" "problemStatements h \<noteq> []"
    by auto
  let ?sp = "shuffledParticipants e (rand_calls w) (participants h)"
  have s: "maxTeamSize h = int (nat (maxTeamSize h))" "1 \<le> nat (maxTeamSize h)" using assms by simp_all
  have "\<exists>y. split_loop e h ?sp (int 0) (db w) [] (after_shuffle e h w) = Some y \<and>
          ((\<forall>k. \<not> fails e k) \<longrightarrow> fst y = None)"
    using s by (rule split_loop_total)
  then obtain y where yc: "split_loop e h ?sp (int 0) (db w) [] (after_shuffle e h w) = Some y \<and>
          ((\<forall>k. \<not> fails e k) \<longrightarrow> fst y = None)" ..
  then have y: "split_loop e h ?sp 0 (db w) [] (after_shuffle e h w) = Some y"
     "(\<forall>k. \<not> fails e k) \<longrightarrow> fst y = None" by simp_all
  obtain er sess ct w2 where yy: "y = (er, sess, ct, w2)" by (metis prod_cases4)
  show ?thesis
    unfolding createTeams_unfold[OF nf] using y yy
    by (cases er) (auto simp: catch_block_def Let_def)
qed

section \<open>Permutation, group sizes and membership documents\<close>

lemma fisher_yates_mset:
  "unit_random e \<Longrightarrow> i < length xs \<Longrightarrow> mset (fisher_yates e k i xs) = mset xs"
proof (induction i arbitrary: k xs)
  case 0
  then show ?case by simp
next
  case (Suc i)
  let ?j = "random_index e k (Suc i + 1)"
  have j: "?j < length xs"
    using random_index_less[OF Suc.prems(1), of "Suc i + 1" k] Suc.prems(2) by simp
  have sw: "mset (xs[Suc i := xs ! ?j, ?j := xs ! Suc i]) = mset xs"
    using j Suc.prems(2) by (rule mset_swap)
  have "mset (fisher_yates e (Suc k) i (xs[Suc i := xs ! ?j, ?j := xs ! Suc i]))
      = mset (xs[Suc i := xs ! ?j, ?j := xs ! Suc i])"
    using Suc.prems by (intro Suc.IH) simp_all
  with sw show ?case by (simp add: Let_def)
qed

lemma shuffledParticipants_mset:
  "unit_random e \<Longrightarrow> mset (shuffledParticipants e k xs) = mset xs"
  by (cases "xs = []") (simp_all add: shuffledParticipants_def fisher_yates_mset)

lemma chunks_sizes:
  "0 < s \<Longrightarrow> g \<in> set (chunks s xs) \<Longrightarrow> 1 \<le> length g \<and> length g \<le> s"
proof (induction s xs rule: chunks.induct)
  case (1 s xs)
  show ?case
  proof (cases "xs = []")
    case True with 1(3) show ?thesis by simp
  next
    case False
    then have c: "chunks s xs = take s xs # chunks s (drop s xs)" using 1(2) by (simp add: chunks_step)
    from 1(3) c have "g = take s xs \<or> g \<in> set (chunks s (drop s xs))" by simp
    then show ?thesis
    proof
      assume "g = take s xs"
      with False 1(2) show ?thesis by (cases xs) (auto simp: Suc_le_eq)
    next
      assume "g \<in> set (chunks s (drop s xs))"
      with 1(1) False 1(2) show ?thesis by blast
    qed
  qed
qed

lemma chunks_butlast:
  "0 < s \<Longrightarrow> g \<in> set (butlast (chunks s xs)) \<Longrightarrow> length g = s"
proof (induction s xs rule: chunks.induct)
  case (1 s xs)
  show ?case
  proof (cases "xs = []")
    case True with 1(3) show ?thesis by simp
  next
    case False
    then have c: "chunks s xs = take s xs # chunks s (drop s xs)" using 1(2) by (simp add: chunks_step)
    show ?thesis
    proof (cases "drop s xs = []")
      case True
      with c 1(3) show ?thesis by simp
    next
      case dn: False
      then have ne: "chunks s (drop s xs) \<noteq> []" using 1(2) by (simp add: chunks_step)
      from dn have "s < length xs" by simp
      then have lt: "length (take s xs) = s" by simp
      from 1(3) c ne have "g = take s xs \<or> g \<in> set (butlast (chunks s (drop s xs)))" by simp
      then show ?thesis
      proof
        assume "g = take s xs" with lt show ?thesis by simp
      next
        assume "g \<in> set (butlast (chunks s (drop s xs)))"
        with 1(1) False 1(2) show ?thesis by blast
      qed
    qed
  qed
qed

lemma chunks_last:
  "0 < s \<Longrightarrow> xs \<noteq> [] \<Longrightarrow>
     length (last (chunks s xs)) = (if length xs mod s = 0 then s else length xs mod s)"
proof (induction s xs rule: chunks.induct)
  case (1 s xs)
  have c: "chunks s xs = take s xs # chunks s (drop s xs)" using 1(2,3) by (simp add: chunks_step)
  show ?case
  proof (cases "drop s xs = []")
    case True
    then have le: "length xs \<le> s" by simp
    have "0 < length xs" using 1(3) by simp
    from True c have "length (last (chunks s xs)) = length xs" using le by simp
    moreover have "(if length xs mod s = 0 then s else length xs mod s) = length xs"
    proof (cases "length xs = s")
      case True then show ?thesis by simp
    next
      case False
      with le have "length xs < s" by simp
      with \<open>0 < length xs\<close> show ?thesis by simp
    qed
    ultimately show ?thesis by simp
  next
    case False
    then have ne: "chunks s (drop s xs) \<noteq> []" using 1(2) by (simp add: chunks_step)
    from False have ge: "s \<le> length xs" by simp
    have "length (last (chunks s xs)) = length (last (chunks s (drop s xs)))" using c ne by simp
    also have "\<dots> = (if length (drop s xs) mod s = 0 then s else length (drop s xs) mod s)"
      using 1(1) 1(2) 1(3) False by blast
    also have "length (drop s xs) mod s = length xs mod s"
      using ge by (simp add: le_mod_geq)
    finally show ?thesis .
  qed
qed

lemma chunks_short:
  "0 < s \<Longrightarrow> length (filter (\<lambda>g. length g < s) (chunks s xs)) \<le> 1"
proof (induction s xs rule: chunks.induct)
  case (1 s xs)
  show ?case
  proof (cases "xs = []")
    case True then show ?thesis by simp
  next
    case False
    then have c: "chunks s xs = take s xs # chunks s (drop s xs)" using 1(2) by (simp add: chunks_step)
    show ?thesis
    proof (cases "length xs < s")
      case True
      then have "drop s xs = []" by simp
      with c show ?thesis by simp
    next
      case ge: False
      then have "length (take s xs) = s" by simp
      with c 1(1) False 1(2) show ?thesis by simp
    qed
  qed
qed

lemma member_rows_later:
  "0 < n \<Longrightarrow> map (\<lambda>(index, member).
            \<lparr>teamId = tid, userId = p_id member,
             role = (if index = 0 then ''leader'' else ''developer''),
             m_status = ''active''\<rparr>) (enumerate n ms)
    = map (\<lambda>member. \<lparr>teamId = tid, userId = p_id member, role = ''developer'', m_status = ''active''\<rparr>) ms"
  by (induction ms arbitrary: n) simp_all

lemma member_rows_Cons:
  "member_rows tid (p # ps) =
     \<lparr>teamId = tid, userId = p_id p, role = ''leader'', m_status = ''active''\<rparr> #
     map (\<lambda>member. \<lparr>teamId = tid, userId = p_id member, role = ''developer'', m_status = ''active''\<rparr>) ps"
  by (simp add: member_rows_def member_rows_later)

lemma userId_member_rows: "map userId (member_rows tid g) = map p_id g"
proof (cases g)
  case Nil
  then show ?thesis by (simp add: member_rows_def)
next
  case (Cons p ps)
  then show ?thesis by (simp add: member_rows_Cons comp_def)
qed

lemma userId_concat_rows:
  "length ids = length gs \<Longrightarrow> map userId (concat (map2 member_rows ids gs)) = map p_id (concat gs)"
  by (induction ids gs rule: list_induct2) (simp_all add: userId_member_rows)

lemma distinct_concat_one:
  "distinct (concat xss) \<Longrightarrow> x \<in> set (concat xss) \<Longrightarrow> length (filter (\<lambda>xs. x \<in> set xs) xss) = 1"
proof (induction xss)
  case Nil then show ?case by simp
next
  case (Cons a xss)
  show ?case
  proof (cases "x \<in> set a")
    case True
    with Cons.prems(1) have "\<forall>xs \<in> set xss. x \<notin> set xs" by auto
    then have "filter (\<lambda>xs. x \<in> set xs) xss = []" by (simp add: filter_empty_conv)
    with True show ?thesis by simp
  next
    case False
    with Cons show ?thesis by auto
  qed
qed

section \<open>The concrete runs\<close>

lemmas eval_defs = createTeamsForHackathon_def shuffledParticipants_def
     random_index_def split_loop.simps team_step_def create_members_def slice_def member_rows_def
     notifications_def new_ObjectId_def Let_def catch_block_def skip_hackathon_def

lemmas ex_more_defs = ex_team_def ex_row_def ex_mail_def ex_rows_def ex_committed_def
     ex_env_update_fails_def ex_aborted_def

lemma ex_run: "createTeamsForHackathon ex_env ex_hackathon ex_world = Some (Returned, ex_committed)"
  by (simp add: ex_defs ex_more_defs eval_defs)

lemma ex_run_aborted:
  "createTeamsForHackathon ex_env_update_fails ex_hackathon ex_world = Some (Threw (StoreError 8), ex_aborted)"
  by (simp add: ex_defs ex_more_defs eval_defs)

lemma store_eqI:
  "hackathons s = a \<Longrightarrow> teams s = b \<Longrightarrow> team_members s = c \<Longrightarrow>
     (s::store) = \<lparr>hackathons = a, teams = b, team_members = c\<rparr>"
  by (cases s) simp

section \<open>Atomicity of the commit\<close>

lemma findByIdAndUpdate_stored:
  "h0 \<in> set hs \<Longrightarrow> h_id h0 = i \<Longrightarrow>
     \<exists>h1 \<in> set (findByIdAndUpdate i hs).
        h_id h1 = i \<and> status h1 = ''registration_closed'' \<and> teamsFormed h1"
proof (induction hs)
  case Nil
  then show ?case by simp
next
  case (Cons x hs)
  show ?case
  proof (cases "h_id x = i")
    case True
    then show ?thesis by simp
  next
    case False
    with Cons.prems have "h0 \<in> set hs" by auto
    from Cons.IH[OF this Cons.prems(2)] False show ?thesis by auto
  qed
qed

lemma findByIdAndUpdate_map:
  "distinct (map h_id hs) \<Longrightarrow>
     findByIdAndUpdate i hs =
       map (\<lambda>x. if h_id x = i then x\<lparr>status := ''registration_closed'', teamsFormed := True\<rparr> else x) hs"
proof (induction hs)
  case Nil
  then show ?case by simp
next
  case (Cons x hs)
  show ?case
  proof (cases "h_id x = i")
    case True
    have "h_id x \<notin> h_id ` set hs" using Cons.prems by simp
    then have "\<forall>y \<in> set hs. h_id y \<noteq> i" using True by (metis image_eqI)
    then have "map (\<lambda>x. if h_id x = i then x\<lparr>status := ''registration_closed'', teamsFormed := True\<rparr> else x) hs = hs"
      by (intro map_idI) simp
    with True show ?thesis by simp
  next
    case False
    with Cons show ?thesis by simp
  qed
qed

text \<open>
  Claim C1. For every run of the formation pass on a hackathon, the Team documents, the
  TeamMember documents and the status/teamsFormed update take effect together or not at
  all. When the run does not return normally (any store call rejected, also after the
  teams were created and before the status was updated) the committed store is the one
  before the run. When the committed store changed, all three writes are in it: at least
  one new team, one per group, each owned by the hackathon and each with at least one
  membership; new membership documents for exactly the shuffled participants, every one
  of them pointing to a new team; and, for a hackathon whose identifier is stored (as it
  is for every hackathon the selector returned), a stored document of that identifier
  with status registration_closed and teamsFormed set. With unique identifiers the
  stored hackathons are the old ones with exactly that document updated.
\<close>

theorem formation_atomic:
  assumes "createTeamsForHackathon e h w = Some (out, w')"
  shows "(out \<noteq> Returned \<longrightarrow> db w' = db w) \<and>
         (db w' = db w \<or>
          (\<exists>ts ms. ts \<noteq> [] \<and>
             length ts = length (chunks (nat (maxTeamSize h))
                            (shuffledParticipants e (rand_calls w) (participants h))) \<and>
             ms = concat (map2 member_rows (map t_id ts)
                          (chunks (nat (maxTeamSize h))
                             (shuffledParticipants e (rand_calls w) (participants h)))) \<and>
             db w' = \<lparr>hackathons = findByIdAndUpdate (h_id h) (hackathons (db w)),
                      teams = teams (db w) @ ts,
                      team_members = team_members (db w) @ ms\<rparr> \<and>
             map userId ms = map p_id (shuffledParticipants e (rand_calls w) (participants h)) \<and>
             (\<forall>m \<in> set ms. teamId m \<in> t_id ` set ts) \<and>
             (\<forall>t \<in> set ts. hackathonId t = h_id h \<and> memberships (db w') t \<noteq> []) \<and>
             (\<forall>h0 \<in> set (hackathons (db w)). h_id h0 = h_id h \<longrightarrow>
                (\<exists>h1 \<in> set (hackathons (db w')).
                    h_id h1 = h_id h \<and> status h1 = ''registration_closed'' \<and> teamsFormed h1)) \<and>
             (distinct (map h_id (hackathons (db w))) \<longrightarrow>
                hackathons (db w') =
                  map (\<lambda>x. if h_id x = h_id h
                            then x\<lparr>status := ''registration_closed'', teamsFormed := True\<rparr> else x)
                      (hackathons (db w)))))"
proof -
  let ?sp = "shuffledParticipants e (rand_calls w) (participants h)"
  let ?gs = "chunks (nat (maxTeamSize h)) ?sp"
  from formation_db[OF assms] have d: "db w' = db w \<or>
      out = Returned \<and> participants h \<noteq> [] \<and> problemStatements h \<noteq> []" by blast
  then have a: "out \<noteq> Returned \<longrightarrow> db w' = db w" by blast
  have b: "\<exists>ts ms. ts \<noteq> [] \<and> length ts = length ?gs \<and>
             ms = concat (map2 member_rows (map t_id ts) ?gs) \<and>
             db w' = \<lparr>hackathons = findByIdAndUpdate (h_id h) (hackathons (db w)),
                      teams = teams (db w) @ ts,
                      team_members = team_members (db w) @ ms\<rparr> \<and>
             map userId ms = map p_id ?sp \<and>
             (\<forall>m \<in> set ms. teamId m \<in> t_id ` set ts) \<and>
             (\<forall>t \<in> set ts. hackathonId t = h_id h \<and> memberships (db w') t \<noteq> []) \<and>
             (\<forall>h0 \<in> set (hackathons (db w)). h_id h0 = h_id h \<longrightarrow>
                (\<exists>h1 \<in> set (hackathons (db w')).
                    h_id h1 = h_id h \<and> status h1 = ''registration_closed'' \<and> teamsFormed h1)) \<and>
             (distinct (map h_id (hackathons (db w))) \<longrightarrow>
                hackathons (db w') =
                  map (\<lambda>x. if h_id x = h_id h
                            then x\<lparr>status := ''registration_closed'', teamsFormed := True\<rparr> else x)
                      (hackathons (db w)))"
    if c: "db w' \<noteq> db w"
  proof -
    from d c have r: "out = Returned" and p: "participants h \<noteq> []" and q: "problemStatements h \<noteq> []"
      by blast+
    note run = assms[unfolded r]
    from formation_store[OF run p q] obtain ts where
      s1: "1 \<le> maxTeamSize h" and len: "length ts = length ?gs"
      and hh: "hackathons (db w') = findByIdAndUpdate (h_id h) (hackathons (db w))"
      and t: "teams (db w') = teams (db w) @ ts"
      and m: "team_members (db w') = team_members (db w) @ concat (map2 member_rows (map t_id ts) ?gs)"
      and fr: "\<forall>t\<in>set ts. new_ObjectId (db w) \<le> t_id t \<and> hackathonId t = h_id h"
      by blast
    define ms where "ms = concat (map2 member_rows (map t_id ts) ?gs)"
    have S: "0 < nat (maxTeamSize h)" using s1 by simp
    have "?sp \<noteq> []" using p by (metis length_shuffledParticipants length_0_conv)
    then have "?gs \<noteq> []" using s1 by (simp add: chunks_step)
    with len have ne: "ts \<noteq> []" by auto
    have st: "db w' = \<lparr>hackathons = findByIdAndUpdate (h_id h) (hackathons (db w)),
                      teams = teams (db w) @ ts,
                      team_members = team_members (db w) @ ms\<rparr>"
      using hh t m unfolding ms_def by (rule store_eqI)
    have u: "map userId ms = map p_id ?sp"
      unfolding ms_def using len S by (simp add: userId_concat_rows chunks_concat)
    have ti: "\<forall>m \<in> set ms. teamId m \<in> t_id ` set ts"
      unfolding ms_def using teamId_concat_rows[of _ "map t_id ts" ?gs] by auto
    have nt: "new_teams w w' = ts" using t by (simp add: new_teams_def)
    from formation_memberships[OF run p q] have
      mm: "\<forall>k < length ts. memberships (db w') (ts ! k) = member_rows (t_id (ts ! k)) (?gs ! k)"
      unfolding nt by blast
    have me: "hackathonId tm = h_id h \<and> memberships (db w') tm \<noteq> []" if ts: "tm \<in> set ts" for tm
    proof -
      from ts obtain k where k: "k < length ts" "ts ! k = tm" by (auto simp: in_set_conv_nth)
      then have "?gs ! k \<in> set ?gs" using len by simp
      from chunks_sizes[OF S this] have "?gs ! k \<noteq> []" by auto
      then have "member_rows (t_id tm) (?gs ! k) \<noteq> []"
        by (metis length_member_rows length_0_conv)
      with mm k fr ts show ?thesis by auto
    qed
    have hs: "\<forall>h0 \<in> set (hackathons (db w)). h_id h0 = h_id h \<longrightarrow>
                (\<exists>h1 \<in> set (hackathons (db w')).
                    h_id h1 = h_id h \<and> status h1 = ''registration_closed'' \<and> teamsFormed h1)"
      unfolding hh using findByIdAndUpdate_stored by blast
    have hm: "distinct (map h_id (hackathons (db w))) \<longrightarrow>
                hackathons (db w') =
                  map (\<lambda>x. if h_id x = h_id h
                            then x\<lparr>status := ''registration_closed'', teamsFormed := True\<rparr> else x)
                      (hackathons (db w))"
      unfolding hh using findByIdAndUpdate_map by blast
    from ne len st u ti me hs hm show ?thesis unfolding ms_def by blast
  qed
  from a b show ?thesis by blast
qed

theorem formation_atomic_witness:
  "createTeamsForHackathon ex_env_update_fails ex_hackathon ex_world
     = Some (Threw (StoreError 8), ex_aborted) \<and> db ex_aborted = db ex_world \<and>
   createTeamsForHackathon ex_env ex_hackathon ex_world = Some (Returned, ex_committed) \<and>
   db ex_committed \<noteq> db ex_world \<and>
   ex_hackathon \<in> set (hackathons (db ex_world)) \<and>
   distinct (map h_id (hackathons (db ex_world))) \<and>
   hackathons (db ex_committed)
     = [ex_hackathon\<lparr>status := ''registration_closed'', teamsFormed := True\<rparr>] \<and>
   map userId (team_members (db ex_committed))
     = map p_id (shuffledParticipants ex_env 0 (participants ex_hackathon)) \<and>
   map userId (team_members (db ex_committed)) = [11, 13, 12] \<and>
   teams (db ex_committed) \<noteq> []"
proof -
  have ab: "db ex_aborted = db ex_world"
    using formation_atomic[OF ex_run_aborted] by simp
  have diff: "db ex_committed \<noteq> db ex_world" by (simp add: ex_committed_def ex_world_def)
  have st: "ex_hackathon \<in> set (hackathons (db ex_world))"
    and di: "distinct (map h_id (hackathons (db ex_world)))"
    and hw: "hackathons (db ex_world) = [ex_hackathon]"
    and tw: "teams (db ex_world) = []" and mw: "team_members (db ex_world) = []"
    and rc: "rand_calls ex_world = 0"
    by (simp_all add: ex_world_def)
  from formation_atomic[OF ex_run] diff obtain ts ms where
    ne: "ts \<noteq> []"
    and dbc: "db ex_committed = \<lparr>hackathons = findByIdAndUpdate (h_id ex_hackathon) (hackathons (db ex_world)),
                      teams = teams (db ex_world) @ ts,
                      team_members = team_members (db ex_world) @ ms\<rparr>"
    and u: "map userId ms = map p_id (shuffledParticipants ex_env (rand_calls ex_world) (participants ex_hackathon))"
    and hm: "distinct (map h_id (hackathons (db ex_world))) \<longrightarrow>
                hackathons (db ex_committed) =
                  map (\<lambda>x. if h_id x = h_id ex_hackathon
                            then x\<lparr>status := ''registration_closed'', teamsFormed := True\<rparr> else x)
                      (hackathons (db ex_world))"
    by blast
  have tm: "team_members (db ex_committed) = ms" "teams (db ex_committed) = ts"
    using arg_cong[OF dbc, of team_members] arg_cong[OF dbc, of teams] tw mw by simp_all
  have h1: "hackathons (db ex_committed)
     = [ex_hackathon\<lparr>status := ''registration_closed'', teamsFormed := True\<rparr>]"
    using hm di hw by simp
  have u1: "map userId (team_members (db ex_committed))
     = map p_id (shuffledParticipants ex_env 0 (participants ex_hackathon))"
    using u tm rc by simp
  have u2: "map userId (team_members (db ex_committed)) = [11, 13, 12]"
    by (simp add: ex_committed_def ex_rows_def ex_row_def)
  have t1: "teams (db ex_committed) \<noteq> []" using ne tm by simp
  from ex_run_aborted ab ex_run diff st di h1 u1 u2 t1 show ?thesis by blast
qed

section \<open>Every participant is placed once\<close>

lemma formation_rows:
  assumes r: "createTeamsForHackathon e h w = Some (Returned, w')"
    and p: "participants h \<noteq> []" and q: "problemStatements h \<noteq> []"
  shows "map (\<lambda>t. map userId (memberships (db w') t)) (new_teams w w')
       = chunks (nat (maxTeamSize h)) (map p_id (shuffledParticipants e (rand_calls w) (participants h)))"
proof -
  let ?sp = "shuffledParticipants e (rand_calls w) (participants h)"
  let ?gs = "chunks (nat (maxTeamSize h)) ?sp"
  from formation_memberships[OF r p q] have
    len: "length (new_teams w w') = length ?gs"
    and ms: "\<And>k. k < length (new_teams w w') \<Longrightarrow>
        memberships (db w') (new_teams w w' ! k) = member_rows (t_id (new_teams w w' ! k)) (?gs ! k)"
    by blast+
  have "map (\<lambda>t. map userId (memberships (db w') t)) (new_teams w w') = map (map p_id) ?gs"
  proof (rule nth_equalityI)
    show "length (map (\<lambda>t. map userId (memberships (db w') t)) (new_teams w w')) = length (map (map p_id) ?gs)"
      using len by simp
  next
    fix k assume "k < length (map (\<lambda>t. map userId (memberships (db w') t)) (new_teams w w'))"
    then have k: "k < length (new_teams w w')" by simp
    with len have k': "k < length ?gs" by simp
    show "map (\<lambda>t. map userId (memberships (db w') t)) (new_teams w w') ! k = map (map p_id) ?gs ! k"
      using k k' ms[OF k] by (simp add: userId_member_rows)
  qed
  then show ?thesis by (simp add: chunks_map)
qed

lemma concat_memberships:
  "map userId (concat (map (memberships s) ts)) = concat (map (\<lambda>t. map userId (memberships s t)) ts)"
  by (simp add: map_concat comp_def)

lemma distinct_map_filter_one:
  "distinct (map f xs) \<Longrightarrow> a \<in> f ` set xs \<Longrightarrow> length (filter (\<lambda>y. f y = a) xs) = 1"
proof (induction xs)
  case Nil then show ?case by simp
next
  case (Cons x xs)
  show ?case
  proof (cases "f x = a")
    case True
    have "f x \<notin> f ` set xs" using Cons.prems(1) by simp
    then have "\<forall>y \<in> set xs. f y \<noteq> f x" by (metis image_eqI)
    with True have "\<forall>y \<in> set xs. f y \<noteq> a" by simp
    then have "filter (\<lambda>y. f y = a) xs = []"
      by (simp add: filter_empty_conv)
    with True show ?thesis by simp
  next
    case False
    with Cons show ?thesis by auto
  qed
qed

text \<open>
  Claim C2. When the formation pass commits for a hackathon with N participants (it
  returns, and neither guard skipped the hackathon), the memberships of the created teams,
  taken together, are N documents whose participants are the N participants of the
  hackathon, each as often as the hackathon lists it; with distinct participants every
  one of them has exactly one membership and belongs to exactly one created team.
\<close>

theorem every_participant_in_one_team:
  assumes "createTeamsForHackathon e h w = Some (Returned, w')"
    and "participants h \<noteq> []" and "problemStatements h \<noteq> []" and "unit_random e"
  shows "let ms = concat (map (memberships (db w')) (new_teams w w')) in
           length ms = length (participants h) \<and>
           mset (map userId ms) = mset (map p_id (participants h)) \<and>
           (distinct (map p_id (participants h)) \<longrightarrow>
              (\<forall>p \<in> set (participants h).
                 length (filter (\<lambda>m. userId m = p_id p) ms) = 1 \<and>
                 length (filter (\<lambda>t. p_id p \<in> userId ` set (memberships (db w') t)) (new_teams w w')) = 1))"
proof -
  let ?sp = "shuffledParticipants e (rand_calls w) (participants h)"
  let ?ms = "concat (map (memberships (db w')) (new_teams w w'))"
  let ?groups = "map (\<lambda>t. map userId (memberships (db w') t)) (new_teams w w')"
  have s1: "1 \<le> maxTeamSize h" using formation_memberships[OF assms(1-3)] by blast
  have g: "?groups = chunks (nat (maxTeamSize h)) (map p_id ?sp)"
    using assms(1-3) by (rule formation_rows)
  have u: "map userId ?ms = map p_id ?sp"
    using s1 by (simp add: concat_memberships g chunks_concat)
  have perm: "mset (map p_id ?sp) = mset (map p_id (participants h))"
    using shuffledParticipants_mset[OF assms(4), of "rand_calls w" "participants h"] by simp
  have l: "length ?ms = length (participants h)"
    using arg_cong[OF u, of length] by simp
  have m: "mset (map userId ?ms) = mset (map p_id (participants h))"
    using u perm by simp
  have one: "length (filter (\<lambda>m. userId m = p_id p) ?ms) = 1 \<and>
             length (filter (\<lambda>t. p_id p \<in> userId ` set (memberships (db w') t)) (new_teams w w')) = 1"
    if d: "distinct (map p_id (participants h))" and pin: "p \<in> set (participants h)" for p
  proof -
    have du: "distinct (map userId ?ms)" using d m by (metis mset_eq_imp_distinct_iff)
    have inu: "p_id p \<in> set (map userId ?ms)"
      using pin m by (metis image_eqI list.set_map mset_eq_setD)
    have c1: "length (filter (\<lambda>m. userId m = p_id p) ?ms) = 1"
      using du inu by (intro distinct_map_filter_one) simp_all
    have "distinct (concat ?groups)" using du by (simp add: concat_memberships)
    moreover have "p_id p \<in> set (concat ?groups)" using inu by (simp add: concat_memberships)
    ultimately have "length (filter (\<lambda>xs. p_id p \<in> set xs) ?groups) = 1"
      by (rule distinct_concat_one)
    then have c2: "length (filter (\<lambda>t. p_id p \<in> userId ` set (memberships (db w') t)) (new_teams w w')) = 1"
      by (simp add: filter_map comp_def)
    from c1 c2 show ?thesis by simp
  qed
  from l m one show ?thesis by (simp add: Let_def)
qed

lemma ex_unit_random: "unit_random ex_env"
  by (simp add: unit_random_def ex_env_def)

lemma ex_new_teams: "new_teams ex_world ex_committed = [ex_team 2, ex_team 3]"
  by (simp add: new_teams_def ex_world_def ex_committed_def)

lemma ex_memberships:
  "memberships (db ex_committed) (ex_team 2) = [ex_row 2 11 ''leader'', ex_row 2 13 ''developer'']"
  "memberships (db ex_committed) (ex_team 3) = [ex_row 3 12 ''leader'']"
  by (simp_all add: memberships_def ex_committed_def ex_rows_def ex_row_def ex_team_def)

theorem every_participant_in_one_team_witness:
  "createTeamsForHackathon ex_env ex_hackathon ex_world = Some (Returned, ex_committed) \<and>
   participants ex_hackathon \<noteq> [] \<and> problemStatements ex_hackathon \<noteq> [] \<and> unit_random ex_env \<and>
   distinct (map p_id (participants ex_hackathon)) \<and>
   ex_user 12 ''bob'' \<in> set (participants ex_hackathon) \<and>
   length (concat (map (memberships (db ex_committed)) (new_teams ex_world ex_committed))) = 3 \<and>
   mset (map userId (concat (map (memberships (db ex_committed)) (new_teams ex_world ex_committed))))
     = mset [11, 12, 13] \<and>
   length (filter (\<lambda>m. userId m = 12)
     (concat (map (memberships (db ex_committed)) (new_teams ex_world ex_committed)))) = 1 \<and>
   length (filter (\<lambda>t. 12 \<in> userId ` set (memberships (db ex_committed) t))
     (new_teams ex_world ex_committed)) = 1"
proof -
  have p: "participants ex_hackathon \<noteq> []" and q: "problemStatements ex_hackathon \<noteq> []"
    and d: "distinct (map p_id (participants ex_hackathon))"
    and i: "map p_id (participants ex_hackathon) = [11, 12, 13]"
    and n: "length (participants ex_hackathon) = 3"
    and b: "ex_user 12 ''bob'' \<in> set (participants ex_hackathon)"
    and b12: "p_id (ex_user 12 ''bob'') = 12"
    by (simp_all add: ex_hackathon_def ex_user_def)
  note t = every_participant_in_one_team[OF ex_run p q ex_unit_random, unfolded Let_def]
  from t have t1: "length (concat (map (memberships (db ex_committed)) (new_teams ex_world ex_committed))) = 3"
    and t2: "mset (map userId (concat (map (memberships (db ex_committed)) (new_teams ex_world ex_committed))))
     = mset [11, 12, 13]"
    by (simp_all only: i n)
  from t d have "\<forall>p \<in> set (participants ex_hackathon).
     length (filter (\<lambda>m. userId m = p_id p)
       (concat (map (memberships (db ex_committed)) (new_teams ex_world ex_committed)))) = 1 \<and>
     length (filter (\<lambda>t. p_id p \<in> userId ` set (memberships (db ex_committed) t))
       (new_teams ex_world ex_committed)) = 1"
    by blast
  from bspec[OF this b] have t3: "length (filter (\<lambda>m. userId m = 12)
     (concat (map (memberships (db ex_committed)) (new_teams ex_world ex_committed)))) = 1 \<and>
   length (filter (\<lambda>t. 12 \<in> userId ` set (memberships (db ex_committed) t))
     (new_teams ex_world ex_committed)) = 1"
    by (simp only: b12)
  from ex_run p q ex_unit_random d b t1 t2 t3 show ?thesis by blast
qed

section \<open>The partition\<close>

text \<open>
  Claim C4. For N \<ge> 1 participants and a team size S \<ge> 1 the formation pass returns; it
  commits when no store call rejects; and when it commits, the groups of the created
  teams are the contiguous chunks of the shuffled order: there are \<lceil>N/S\<rceil> of them
  (written (N + S - 1) div S), every group has between 1 and S members, every group but
  the last has S members, the last has N mod S members when that is not zero and S
  otherwise, and at most one group has fewer than S members.
\<close>

theorem partition_groups:
  assumes "participants h \<noteq> []" and "1 \<le> maxTeamSize h" and "problemStatements h \<noteq> []"
  shows "\<exists>out w'. createTeamsForHackathon e h w = Some (out, w') \<and>
           ((\<forall>k. \<not> fails e k) \<longrightarrow> out = Returned) \<and>
           (out = Returned \<longrightarrow>
             (let N = length (participants h); S = nat (maxTeamSize h);
                  shuffled = map p_id (shuffledParticipants e (rand_calls w) (participants h));
                  groups = map (\<lambda>t. map userId (memberships (db w') t)) (new_teams w w')
              in groups = chunks S shuffled \<and>
                 concat groups = shuffled \<and>
                 length groups = (N + S - 1) div S \<and>
                 (\<forall>g\<in>set groups. 1 \<le> length g \<and> length g \<le> S) \<and>
                 (\<forall>g\<in>set (butlast groups). length g = S) \<and>
                 length (last groups) = (if N mod S = 0 then S else N mod S) \<and>
                 length (filter (\<lambda>g. length g < S) groups) \<le> 1))"
proof -
  from formation_total[OF assms(2), of e w] obtain out w' where
    run: "createTeamsForHackathon e h w = Some (out, w')"
    and nf: "(\<forall>k. \<not> fails e k) \<longrightarrow> out = Returned" by blast
  let ?S = "nat (maxTeamSize h)"
  let ?sh = "map p_id (shuffledParticipants e (rand_calls w) (participants h))"
  let ?groups = "map (\<lambda>t. map userId (memberships (db w') t)) (new_teams w w')"
  have S: "0 < ?S" using assms(2) by simp
  have len: "length ?sh = length (participants h)" by simp
  have ne: "?sh \<noteq> []" using assms(1) len by (metis length_0_conv)
  have props: "?groups = chunks ?S ?sh \<and>
                 concat ?groups = ?sh \<and>
                 length ?groups = (length (participants h) + ?S - 1) div ?S \<and>
                 (\<forall>g\<in>set ?groups. 1 \<le> length g \<and> length g \<le> ?S) \<and>
                 (\<forall>g\<in>set (butlast ?groups). length g = ?S) \<and>
                 length (last ?groups) =
                   (if length (participants h) mod ?S = 0 then ?S else length (participants h) mod ?S) \<and>
                 length (filter (\<lambda>g. length g < ?S) ?groups) \<le> 1"
    if r: "out = Returned"
  proof -
    have g: "?groups = chunks ?S ?sh"
      using run[unfolded r] assms(1) assms(3) by (rule formation_rows)
    have "concat (chunks ?S ?sh) = ?sh" using S by (rule chunks_concat)
    moreover have "length (chunks ?S ?sh) = (length (participants h) + ?S - 1) div ?S"
      using chunks_length[OF S, of ?sh] len by simp
    moreover have "\<forall>g\<in>set (chunks ?S ?sh). 1 \<le> length g \<and> length g \<le> ?S"
      using chunks_sizes[OF S] by blast
    moreover have "\<forall>g\<in>set (butlast (chunks ?S ?sh)). length g = ?S"
      using chunks_butlast[OF S] by blast
    moreover have "length (last (chunks ?S ?sh)) =
         (if length (participants h) mod ?S = 0 then ?S else length (participants h) mod ?S)"
      using chunks_last[OF S ne] len by simp
    moreover have "length (filter (\<lambda>g. length g < ?S) (chunks ?S ?sh)) \<le> 1"
      using S by (rule chunks_short)
    ultimately show ?thesis unfolding g by blast
  qed
  show ?thesis
    using run nf props unfolding Let_def by blast
qed

theorem partition_groups_witness:
  "participants ex_hackathon \<noteq> [] \<and> 1 \<le> maxTeamSize ex_hackathon \<and>
   problemStatements ex_hackathon \<noteq> [] \<and> (\<forall>k. \<not> fails ex_env k) \<and>
   createTeamsForHackathon ex_env ex_hackathon ex_world = Some (Returned, ex_committed) \<and>
   map (\<lambda>t. map userId (memberships (db ex_committed) t)) (new_teams ex_world ex_committed)
     = [[11, 13], [12]] \<and>
   length (map (\<lambda>t. map userId (memberships (db ex_committed) t)) (new_teams ex_world ex_committed))
     = (3 + 2 - 1) div 2 \<and>
   length (last (map (\<lambda>t. map userId (memberships (db ex_committed) t))
     (new_teams ex_world ex_committed))) = 3 mod 2"
proof -
  have p: "participants ex_hackathon \<noteq> []" and s: "1 \<le> maxTeamSize ex_hackathon"
    and q: "problemStatements ex_hackathon \<noteq> []"
    and n: "length (participants ex_hackathon) = 3" and m: "nat (maxTeamSize ex_hackathon) = 2"
    by (simp_all add: ex_hackathon_def)
  have nf: "\<forall>k. \<not> fails ex_env k" by (simp add: ex_env_def)
  from partition_groups[OF p s q, of ex_env ex_world] obtain out w' where
    run: "createTeamsForHackathon ex_env ex_hackathon ex_world = Some (out, w')"
    and props: "out = Returned \<longrightarrow>
      length (map (\<lambda>t. map userId (memberships (db w') t)) (new_teams ex_world w'))
         = (length (participants ex_hackathon) + nat (maxTeamSize ex_hackathon) - 1)
             div nat (maxTeamSize ex_hackathon) \<and>
      length (last (map (\<lambda>t. map userId (memberships (db w') t)) (new_teams ex_world w')))
         = (if length (participants ex_hackathon) mod nat (maxTeamSize ex_hackathon) = 0
            then nat (maxTeamSize ex_hackathon)
            else length (participants ex_hackathon) mod nat (maxTeamSize ex_hackathon))"
    unfolding Let_def by blast
  from run ex_run have o: "out = Returned" and w: "w' = ex_committed" by simp_all
  from props o w have
    t1: "length (map (\<lambda>t. map userId (memberships (db ex_committed) t)) (new_teams ex_world ex_committed))
     = (3 + 2 - 1) div 2"
    and t2: "length (last (map (\<lambda>t. map userId (memberships (db ex_committed) t))
     (new_teams ex_world ex_committed))) = 3 mod 2"
    by (simp_all add: n m)
  have ev: "map (\<lambda>t. map userId (memberships (db ex_committed) t)) (new_teams ex_world ex_committed)
     = [[11, 13], [12]]"
    by (simp add: ex_new_teams ex_memberships ex_row_def)
  from p s q nf ex_run ev t1 t2 show ?thesis by blast
qed

section \<open>Roles\<close>

text \<open>
  Claim C6. In every team created by a committed formation, the first membership
  document is the leader's, it belongs to the participant at index 0 of the team's
  chunk of the shuffled order (index k * S of the shuffled list for the k-th team),
  every other membership of the team has role developer, and so exactly one membership
  of the team has role leader.
\<close>

theorem one_leader_per_team:
  assumes "createTeamsForHackathon e h w = Some (Returned, w')"
    and "participants h \<noteq> []" and "problemStatements h \<noteq> []"
  shows "\<forall>k < length (new_teams w w').
           (let ms = memberships (db w') (new_teams w w' ! k)
            in ms \<noteq> [] \<and> role (hd ms) = ''leader'' \<and>
               userId (hd ms) =
                 p_id (shuffledParticipants e (rand_calls w) (participants h) ! (k * nat (maxTeamSize h))) \<and>
               (\<forall>m\<in>set (tl ms). role m = ''developer'') \<and>
               length (filter (\<lambda>m. role m = ''leader'') ms) = 1)"
proof (intro allI impI)
  fix k assume k: "k < length (new_teams w w')"
  let ?S = "nat (maxTeamSize h)"
  let ?sp = "shuffledParticipants e (rand_calls w) (participants h)"
  let ?gs = "chunks ?S ?sp"
  from formation_memberships[OF assms] k have
    s1: "1 \<le> maxTeamSize h" and len: "length (new_teams w w') = length ?gs"
    and ms: "memberships (db w') (new_teams w w' ! k) = member_rows (t_id (new_teams w w' ! k)) (?gs ! k)"
    by blast+
  have S: "0 < ?S" using s1 by simp
  have kg: "k < length ?gs" using k len by simp
  have nth: "?gs ! k = take ?S (drop (k * ?S) ?sp)" using S kg by (rule chunks_nth)
  have "?gs ! k \<in> set ?gs" using kg by simp
  from chunks_sizes[OF S this] have ne: "?gs ! k \<noteq> []" by auto
  then obtain p ps where g: "?gs ! k = p # ps" by (cases "?gs ! k") auto
  have inr: "k * ?S < length ?sp" using ne nth by (cases "k * ?S < length ?sp") auto
  have "hd (?gs ! k) = ?sp ! (k * ?S)"
    using S inr by (simp add: nth hd_drop_conv_nth)
  with g have p: "p = ?sp ! (k * ?S)" by simp
  have dev: "filter (\<lambda>m. role m = ''leader'')
      (map (\<lambda>member. \<lparr>teamId = t_id (new_teams w w' ! k), userId = p_id member,
                 role = ''developer'', m_status = ''active''\<rparr>) ps) = []"
    by (simp add: filter_empty_conv)
  show "let ms = memberships (db w') (new_teams w w' ! k)
        in ms \<noteq> [] \<and> role (hd ms) = ''leader'' \<and>
           userId (hd ms) = p_id (?sp ! (k * ?S)) \<and>
           (\<forall>m\<in>set (tl ms). role m = ''developer'') \<and>
           length (filter (\<lambda>m. role m = ''leader'') ms) = 1"
    unfolding Let_def ms g member_rows_Cons using p dev by auto
qed

theorem one_leader_per_team_witness:
  "createTeamsForHackathon ex_env ex_hackathon ex_world = Some (Returned, ex_committed) \<and>
   participants ex_hackathon \<noteq> [] \<and> problemStatements ex_hackathon \<noteq> [] \<and>
   (0::nat) < length (new_teams ex_world ex_committed) \<and>
   memberships (db ex_committed) (new_teams ex_world ex_committed ! 0)
     = [ex_row 2 11 ''leader'', ex_row 2 13 ''developer''] \<and>
   length (filter (\<lambda>m. role m = ''leader'')
     (memberships (db ex_committed) (new_teams ex_world ex_committed ! 0))) = 1"
proof -
  have p: "participants ex_hackathon \<noteq> []" and q: "problemStatements ex_hackathon \<noteq> []"
    by (simp_all add: ex_hackathon_def)
  have k: "(0::nat) < length (new_teams ex_world ex_committed)" by (simp add: ex_new_teams)
  from one_leader_per_team[OF ex_run p q] k
  have t: "length (filter (\<lambda>m. role m = ''leader'')
     (memberships (db ex_committed) (new_teams ex_world ex_committed ! 0))) = 1"
    unfolding Let_def by blast
  have ev: "memberships (db ex_committed) (new_teams ex_world ex_committed ! 0)
     = [ex_row 2 11 ''leader'', ex_row 2 13 ''developer'']"
    by (simp add: ex_new_teams ex_memberships)
  from ex_run p q k ev t show ?thesis by blast
qed

section \<open>The selector\<close>

text \<open>
  Claim C7, as stated, fails: the query does not look at the problem statements, so a
  hackathon without any is returned.
\<close>

theorem selector_ignores_problem_statements_counterexample:
  "ex_no_problems \<in> set (find_hackathons 1000 \<lparr>hackathons = [ex_no_problems], teams = [], team_members = []\<rparr>)
   \<and> problemStatements ex_no_problems = []"
  by (simp add: find_hackathons_def eligible_def ex_no_problems_def ex_hackathon_def ex_user_def)

text \<open>
  Claim C7, amended. At the instant \<open>now\<close> the selector returns exactly the stored hackathons
  whose registration deadline lies in the closed interval from \<open>now - 60000\<close> to \<open>now\<close>
  (milliseconds) and that are active, have status registration_open and have at least one
  participant; the problem-statement list is not part of the query. When no hackathon
  qualifies the result is the empty list, and a tick whose query is answered with the
  empty list ends normally after logging that it found none.
\<close>

theorem selector_returns:
  "(h \<in> set (find_hackathons now s) \<longleftrightarrow>
      h \<in> set (hackathons s) \<and> now - 60000 \<le> registrationDeadline h \<and> registrationDeadline h \<le> now \<and>
      isActive h \<and> status h = ''registration_open'' \<and> participants h \<noteq> []) \<and>
   ((\<forall>h' \<in> set (hackathons s).
       \<not> (now - 60000 \<le> registrationDeadline h' \<and> registrationDeadline h' \<le> now \<and>
          isActive h' \<and> status h' = ''registration_open'' \<and> participants h' \<noteq> []))
     \<longrightarrow> find_hackathons now s = []) \<and>
   (find_hackathons now (db w) = [] \<and> \<not> fails e (store_calls w) \<longrightarrow>
      tick e now w = Some (w\<lparr>store_calls := store_calls w + 1,
                         trace := trace w @ [Log RunningScheduler, Log (FoundHackathons 0)]\<rparr>))"
  by (auto simp: find_hackathons_def eligible_def filter_empty_conv tick_def Let_def)

theorem selector_returns_witness:
  "ex_hackathon \<in> set (find_hackathons 1000 (db ex_world)) \<and>
   ex_hackathon \<in> set (find_hackathons 61000 (db ex_world)) \<and>
   ex_hackathon \<notin> set (find_hackathons 61001 (db ex_world)) \<and>
   ex_hackathon \<notin> set (find_hackathons 999 (db ex_world)) \<and>
   find_hackathons 61001 (db ex_world) = [] \<and> \<not> fails ex_env (store_calls ex_world) \<and>
   tick ex_env 61001 ex_world
     = Some (ex_world\<lparr>store_calls := store_calls ex_world + 1,
                      trace := trace ex_world @ [Log RunningScheduler, Log (FoundHackathons 0)]\<rparr>)"
proof -
  have f: "registrationDeadline ex_hackathon = 1000" "isActive ex_hackathon"
    "status ex_hackathon = ''registration_open''" "participants ex_hackathon \<noteq> []"
    "hackathons (db ex_world) = [ex_hackathon]"
    by (simp_all add: ex_hackathon_def ex_world_def)
  have n: "\<forall>h' \<in> set (hackathons (db ex_world)).
       \<not> (61001 - 60000 \<le> registrationDeadline h' \<and> registrationDeadline h' \<le> 61001 \<and>
          isActive h' \<and> status h' = ''registration_open'' \<and> participants h' \<noteq> [])"
    by (simp add: f)
  have a: "ex_hackathon \<in> set (find_hackathons 1000 (db ex_world))"
    using selector_returns[of ex_hackathon 1000 "db ex_world"] f by simp
  have b: "ex_hackathon \<in> set (find_hackathons 61000 (db ex_world))"
    using selector_returns[of ex_hackathon 61000 "db ex_world"] f by simp
  have c: "ex_hackathon \<notin> set (find_hackathons 61001 (db ex_world))"
    using selector_returns[of ex_hackathon 61001 "db ex_world"] f by simp
  have d: "ex_hackathon \<notin> set (find_hackathons 999 (db ex_world))"
    using selector_returns[of ex_hackathon 999 "db ex_world"] f by simp
  have e: "find_hackathons 61001 (db ex_world) = []"
    using selector_returns[of ex_hackathon 61001 "db ex_world"] n by blast
  have nf: "\<not> fails ex_env (store_calls ex_world)" by (simp add: ex_env_def)
  have t: "tick ex_env 61001 ex_world
     = Some (ex_world\<lparr>store_calls := store_calls ex_world + 1,
                      trace := trace ex_world @ [Log RunningScheduler, Log (FoundHackathons 0)]\<rparr>)"
    using selector_returns[of ex_hackathon 61001 "db ex_world" ex_world ex_env] e nf by blast
  from a b c d e nf t show ?thesis by blast
qed

section \<open>Formation at most once\<close>

lemma findByIdAndUpdate_closed:
  "distinct (map h_id hs) \<Longrightarrow> h' \<in> set (findByIdAndUpdate i hs) \<Longrightarrow> h_id h' = i \<Longrightarrow>
     status h' = ''registration_closed''"
proof (induction hs)
  case Nil then show ?case by simp
next
  case (Cons x hs)
  show ?case
  proof (cases "h_id x = i")
    case True
    with Cons.prems(1) have "\<forall>y \<in> set hs. h_id y \<noteq> i" by (metis distinct.simps(2) image_eqI list.simps(9) list.set_map)
    with Cons.prems True show ?thesis by auto
  next
    case False
    with Cons show ?thesis by auto
  qed
qed

lemma ex_rerun:
  "createTeamsForHackathon ex_env ex_hackathon ex_committed = Some (Returned, ex_formed_again) \<and>
   map hackathonId (teams (db ex_formed_again)) = [1, 1, 1, 1]"
  by (simp add: ex_formed_again_def ex_defs ex_more_defs eval_defs)

lemma ex_retry:
  "createTeamsForHackathon ex_env_update_fails ex_hackathon ex_aborted = Some (Returned, ex_retried) \<and>
   map hackathonId (teams (db ex_retried)) = [1, 1]"
  by (simp add: ex_retried_def ex_defs ex_more_defs eval_defs)

text \<open>
  Claim C3, as stated, fails: \<^verbatim>\<open>findByIdAndUpdate\<close> is addressed by identifier alone, so a
  second pass over a hackathon document that was selected before the first pass
  committed is not stopped by the stored status: it commits a second set of teams.
\<close>

theorem second_pass_forms_again_counterexample:
  "map status (hackathons (db ex_committed)) = [''registration_closed''] \<and>
   formation_twice ex_env ex_hackathon ex_world = Some (Returned, Returned, ex_formed_again) \<and>
   map hackathonId (teams (db ex_formed_again)) = [1, 1, 1, 1]"
  using ex_rerun by (simp add: formation_twice_def ex_run) (simp add: ex_committed_def ex_hackathon_def)

text \<open>
  Claim C3, amended. Of two passes over a hackathon, when the first left the store as it
  was (it did not commit), the teams in the store after the second are none or one set of
  \<lceil>N/S\<rceil> teams; and when the first changed the store it returned normally and, identifiers
  of stored hackathons being distinct, the selector returns no hackathon with that
  identifier from the new store at any instant.
\<close>

theorem formation_once:
  assumes "createTeamsForHackathon e h w = Some (out1, w1)"
    and "createTeamsForHackathon e h w1 = Some (out2, w2)"
  shows "(db w1 = db w \<longrightarrow>
            new_teams w w2 = [] \<or>
            length (new_teams w w2) = (length (participants h) + nat (maxTeamSize h) - 1) div nat (maxTeamSize h)) \<and>
         (db w1 \<noteq> db w \<longrightarrow>
            out1 = Returned \<and>
            (distinct (map h_id (hackathons (db w))) \<longrightarrow>
               (\<forall>now. \<forall>h' \<in> set (find_hackathons now (db w1)). h_id h' \<noteq> h_id h)))"
proof (intro conjI impI)
  assume same: "db w1 = db w"
  from formation_db[OF assms(2)] have "db w2 = db w1 \<or>
      out2 = Returned \<and> participants h \<noteq> [] \<and> problemStatements h \<noteq> []" by blast
  then show "new_teams w w2 = [] \<or>
     length (new_teams w w2) = (length (participants h) + nat (maxTeamSize h) - 1) div nat (maxTeamSize h)"
  proof
    assume "db w2 = db w1"
    with same show ?thesis by (simp add: new_teams_def)
  next
    assume c: "out2 = Returned \<and> participants h \<noteq> [] \<and> problemStatements h \<noteq> []"
    then have r: "createTeamsForHackathon e h w1 = Some (Returned, w2)" using assms(2) by simp
    from formation_memberships[OF r] c have s1: "1 \<le> maxTeamSize h"
      and l: "length (new_teams w1 w2) =
         length (chunks (nat (maxTeamSize h)) (shuffledParticipants e (rand_calls w1) (participants h)))"
      by blast+
    have "new_teams w w2 = new_teams w1 w2" using same by (simp add: new_teams_def)
    moreover have "length (chunks (nat (maxTeamSize h)) (shuffledParticipants e (rand_calls w1) (participants h)))
       = (length (participants h) + nat (maxTeamSize h) - 1) div nat (maxTeamSize h)"
      using s1 by (simp add: chunks_length)
    ultimately show ?thesis using l by simp
  qed
next
  assume diff: "db w1 \<noteq> db w"
  from formation_db[OF assms(1)] diff show "out1 = Returned" by blast
next
  assume diff: "db w1 \<noteq> db w" and d: "distinct (map h_id (hackathons (db w)))"
  from formation_db[OF assms(1)] diff
  have c: "out1 = Returned" "participants h \<noteq> []" "problemStatements h \<noteq> []" by blast+
  from formation_store[OF assms(1)[unfolded c(1)] c(2,3)]
  have hh: "hackathons (db w1) = findByIdAndUpdate (h_id h) (hackathons (db w))" by blast
  show "\<forall>now. \<forall>h' \<in> set (find_hackathons now (db w1)). h_id h' \<noteq> h_id h"
  proof (intro allI ballI notI)
    fix now h' assume i: "h' \<in> set (find_hackathons now (db w1))" and e: "h_id h' = h_id h"
    from i have m: "h' \<in> set (findByIdAndUpdate (h_id h) (hackathons (db w)))"
      and o: "status h' = ''registration_open''"
      by (simp_all add: find_hackathons_def eligible_def hh)
    from findByIdAndUpdate_closed[OF d m e] o show False by simp
  qed
qed

theorem formation_once_witness:
  "createTeamsForHackathon ex_env_update_fails ex_hackathon ex_world
      = Some (Threw (StoreError 8), ex_aborted) \<and>
   createTeamsForHackathon ex_env_update_fails ex_hackathon ex_aborted = Some (Returned, ex_retried) \<and>
   db ex_aborted = db ex_world \<and>
   length (new_teams ex_world ex_retried) = (3 + 2 - 1) div 2 \<and>
   createTeamsForHackathon ex_env ex_hackathon ex_world = Some (Returned, ex_committed) \<and>
   createTeamsForHackathon ex_env ex_hackathon ex_committed = Some (Returned, ex_formed_again) \<and>
   db ex_committed \<noteq> db ex_world \<and>
   distinct (map h_id (hackathons (db ex_world))) \<and>
   hackathons (db ex_committed)
     = [ex_hackathon\<lparr>status := ''registration_closed'', teamsFormed := True\<rparr>] \<and>
   ex_hackathon\<lparr>status := ''registration_closed'', teamsFormed := True\<rparr>
     \<notin> set (find_hackathons 1000 (db ex_committed))"
proof -
  have r2: "createTeamsForHackathon ex_env_update_fails ex_hackathon ex_aborted = Some (Returned, ex_retried)"
    and t2: "map hackathonId (teams (db ex_retried)) = [1, 1]"
    using ex_retry by simp_all
  have same: "db ex_aborted = db ex_world" by (simp add: ex_aborted_def)
  have "teams (db ex_retried) \<noteq> []" using t2 by auto
  then have ne: "new_teams ex_world ex_retried \<noteq> []"
    by (simp add: new_teams_def ex_world_def)
  have n: "length (participants ex_hackathon) = 3" "nat (maxTeamSize ex_hackathon) = 2"
    by (simp_all add: ex_hackathon_def)
  from formation_once[OF ex_run_aborted r2] same ne
  have a: "length (new_teams ex_world ex_retried) = (3 + 2 - 1) div 2"
    by (simp only: n) blast
  have r4: "createTeamsForHackathon ex_env ex_hackathon ex_committed = Some (Returned, ex_formed_again)"
    using ex_rerun by simp
  have diff: "db ex_committed \<noteq> db ex_world" by (simp add: ex_committed_def ex_world_def)
  have d: "distinct (map h_id (hackathons (db ex_world)))" by (simp add: ex_world_def)
  from formation_once[OF ex_run r4] diff d
  have "\<forall>h' \<in> set (find_hackathons 1000 (db ex_committed)). h_id h' \<noteq> h_id ex_hackathon"
    by blast
  moreover have "h_id (ex_hackathon\<lparr>status := ''registration_closed'', teamsFormed := True\<rparr>)
      = h_id ex_hackathon" by simp
  ultimately have b: "ex_hackathon\<lparr>status := ''registration_closed'', teamsFormed := True\<rparr>
     \<notin> set (find_hackathons 1000 (db ex_committed))" by blast
  have c: "hackathons (db ex_committed)
     = [ex_hackathon\<lparr>status := ''registration_closed'', teamsFormed := True\<rparr>]"
    by (simp add: ex_committed_def)
  from ex_run_aborted r2 same a ex_run r4 diff d c b show ?thesis by blast
qed

section \<open>Notifications and the commit\<close>

text \<open>
  Claim C8 at a failing input: the store rejects \<^verbatim>\<open>findByIdAndUpdate\<close> (store call 8).
  \<^verbatim>\<open>sendTeamNotification\<close> was called for all three participants inside the loop, the
  transaction is then aborted, nothing is committed, and no team or membership exists.
\<close>

theorem emails_sent_before_commit:
  "createTeamsForHackathon ex_env_update_fails ex_hackathon ex_world
      = Some (Threw (StoreError 8), ex_aborted) \<and>
   trace ex_aborted = [ex_mail ''ann'' [''cy''], ex_mail ''cy'' [''ann''], ex_mail ''bob'' [],
                       Abort, Log (ErrorCreatingTeams (StoreError 8))] \<and>
   Commit \<notin> set (trace ex_aborted) \<and>
   teams (db ex_aborted) = [] \<and> team_members (db ex_aborted) = []"
  using ex_run_aborted by (simp add: ex_aborted_def ex_world_def ex_mail_def)

section \<open>Errors within a tick\<close>

text \<open>
  Claim C9 at a failing input: two eligible hackathons, and the first \<^verbatim>\<open>Team.create\<close> of
  the tick rejects (store call 2). The error is rethrown, the loop over the hackathons is
  left, and the tick ends after four store calls: no session is opened for the second
  hackathon.
\<close>

theorem tick_stops_after_error:
  "find_hackathons 1000 (db ex_two) = [ex_hackathon, ex_second] \<and>
   tick ex_env_create_fails 1000 ex_two = Some ex_two_stopped \<and>
   db ex_two_stopped = db ex_two \<and> store_calls ex_two_stopped = 4"
  by (simp add: tick_def find_hackathons_def eligible_def ex_defs ex_defs2 eval_defs)

section \<open>Preconditions of the partition\<close>

lemma team_step_no_fail:
  assumes "\<forall>k. \<not> fails e k"
  shows "fst (team_step e h sp i sess ct w) = None"
proof -
  have "\<And>k rows. fst (create_members e k rows) = None"
    using assms by (simp add: create_members_def find_None_iff)
  then have "\<And>k rows a b. create_members e k rows = (a, b) \<Longrightarrow> a = None"
    by (metis fst_conv)
  then show ?thesis
    using assms by (auto simp: team_step_def Let_def split: prod.splits option.splits)
qed

lemma split_loop_diverges:
  assumes "maxTeamSize h \<le> 0" and "i < int (length sp)" and "\<forall>k. \<not> fails e k"
  shows "split_loop e h sp i sess ct w = None"
proof (rule ccontr)
  assume "split_loop e h sp i sess ct w \<noteq> None"
  then obtain y where y: "split_loop e h sp i sess ct w = Some y" by auto
  have "\<not> (maxTeamSize h \<le> 0 \<and> i < int (length sp) \<and> (\<forall>k. \<not> fails e k))"
  proof (rule split_loop.raw_induct[where P = "\<lambda>e h sp i sess ct w y.
          \<not> (maxTeamSize h \<le> 0 \<and> i < int (length sp) \<and> (\<forall>k. \<not> fails e k))", OF _ y])
    fix f :: "env \<Rightarrow> hackathon \<Rightarrow> participant list \<Rightarrow> int \<Rightarrow> store \<Rightarrow> populated_team list \<Rightarrow> world
       \<Rightarrow> (error option \<times> store \<times> populated_team list \<times> world) option"
    fix e h sp i sess ct w y
    assume ih: "\<And>e h sp i sess ct w y. f e h sp i sess ct w = Some y \<Longrightarrow>
          \<not> (maxTeamSize h \<le> 0 \<and> i < int (length sp) \<and> (\<forall>k. \<not> fails e k))"
    assume body: "(if i < int (length sp)
        then (case team_step e h sp i sess ct w of
                (None, sess', createdTeams', w') \<Rightarrow> f e h sp (i + maxTeamSize h) sess' createdTeams' w'
              | (Some err, r) \<Rightarrow> Some (Some err, r))
        else Some (None, sess, ct, w)) = Some y"
    show "\<not> (maxTeamSize h \<le> 0 \<and> i < int (length sp) \<and> (\<forall>k. \<not> fails e k))"
    proof
      assume c: "maxTeamSize h \<le> 0 \<and> i < int (length sp) \<and> (\<forall>k. \<not> fails e k)"
      obtain r sess' ct' w' where st: "team_step e h sp i sess ct w = (r, sess', ct', w')"
        by (metis prod_cases4)
      from team_step_no_fail[of e h sp i sess ct w] c st have "r = None" by simp
      with body c st have "f e h sp (i + maxTeamSize h) sess' ct' w' = Some y" by simp
      from ih[OF this] c show False by simp
    qed
  qed
  with assms show False by simp
qed

lemma formation_diverges:
  assumes "maxTeamSize h \<le> 0" and "participants h \<noteq> []" and "problemStatements h \<noteq> []"
    and "\<forall>k. \<not> fails e k"
  shows "createTeamsForHackathon e h w = None"
proof -
  have nf: "\<not> fails e (store_calls w)" using assms(4) by simp
  have "(0::int) < int (length (shuffledParticipants e (rand_calls w) (participants h)))"
    using assms(2) by simp
  from split_loop_diverges[OF assms(1) this assms(4)]
  show ?thesis unfolding createTeams_unfold[OF nf assms(2,3)] by simp
qed

lemma skip_without_participants:
  assumes "participants h = [] \<or> problemStatements h = []"
    and "\<not> fails e (store_calls w)" and "\<not> fails e (store_calls w + 1)"
  shows "createTeamsForHackathon e h w =
     Some (Returned, w\<lparr>store_calls := store_calls w + 2,
              trace := trace w @
                [Log (if participants h = [] then NoParticipants (title h)
                      else NoProblemStatements (title h)), Abort]\<rparr>)"
  using assms by (auto simp: createTeamsForHackathon_def skip_hackathon_def Let_def)

text \<open>
  Claim C10 at a failing input: with participants, a problem statement and
  \<^verbatim>\<open>maxTeamSize\<close> 0 (or -1) the hackathon is not skipped; when the store never rejects, the
  team loop never ends.
\<close>

theorem unbounded_team_loop:
  "createTeamsForHackathon ex_env (ex_hackathon\<lparr>maxTeamSize := 0\<rparr>) ex_world = None \<and>
   createTeamsForHackathon ex_env (ex_hackathon\<lparr>maxTeamSize := - 1\<rparr>) ex_world = None"
proof -
  have nf: "\<forall>k. \<not> fails ex_env k" by (simp add: ex_env_def)
  have "createTeamsForHackathon ex_env (ex_hackathon\<lparr>maxTeamSize := 0\<rparr>) ex_world = None"
    by (rule formation_diverges) (simp_all add: nf, simp_all add: ex_hackathon_def)
  moreover have "createTeamsForHackathon ex_env (ex_hackathon\<lparr>maxTeamSize := - 1\<rparr>) ex_world = None"
    by (rule formation_diverges) (simp_all add: nf, simp_all add: ex_hackathon_def)
  ultimately show ?thesis by simp
qed

end
